theory Spec2Isabelle
  imports Complex_Main "HOL-Library.Word" "HOL-Library.Monad_Syntax"
begin

section \<open>Double-precision arithmetic\<close>

text \<open>
  \<open>CBlock.cpp\<close> is written against Qt, whose \<open>qreal\<close> is a C++ \<open>double\<close>. A finite
  double is modelled by the real number it stands for, and every arithmetic operation of
  the source by the exact operation followed by \<open>rnd\<close>, the rounding of IEEE 754 binary64
  to the nearest double, a tie going to the even significand. \<open>expo\<close> is the binary
  exponent of the result, at least \<open>-1022\<close> (below it the doubles are subnormal and
  spaced \<open>2 powi (- 1074)\<close> apart) and at most \<open>1023\<close>. Infinities and NaN have no
  counterpart here: a result of magnitude \<open>2 powi 1024\<close> or more, where the machine
  gives an infinity, is outside the model.
\<close>

type_synonym qreal = real

primrec top_exp :: "nat \<Rightarrow> real \<Rightarrow> int" where
  "top_exp 0 a = - 1022"
| "top_exp (Suc n) a =
     (if 2 powi (int (Suc n) - 1022) \<le> a then int (Suc n) - 1022 else top_exp n a)"

definition expo :: "real \<Rightarrow> int" where
  "expo x = top_exp 2045 \<bar>x\<bar>"

definition round_even :: "real \<Rightarrow> int" where
  "round_even r =
     (let f = \<lfloor>r\<rfloor>; d = r - of_int f
      in if d < 1 / 2 then f else if 1 / 2 < d then f + 1 else if even f then f else f + 1)"

definition rnd :: "real \<Rightarrow> qreal" where
  "rnd x = of_int (round_even (x / 2 powi (expo x - 52))) * 2 powi (expo x - 52)"

definition fadd :: "qreal \<Rightarrow> qreal \<Rightarrow> qreal" where
  "fadd x y = rnd (x + y)"

definition fsub :: "qreal \<Rightarrow> qreal \<Rightarrow> qreal" where
  "fsub x y = rnd (x - y)"

definition fmul :: "qreal \<Rightarrow> qreal \<Rightarrow> qreal" where
  "fmul x y = rnd (x * y)"

definition fdiv :: "qreal \<Rightarrow> qreal \<Rightarrow> qreal" where
  "fdiv x y = rnd (x / y)"

text \<open>The reals that are doubles are those that rounding leaves as they are.\<close>

definition representable :: "real \<Rightarrow> bool" where
  "representable x = (rnd x = x)"

section \<open>Qt value types used by CBlock\<close>

type_synonym QPointF = "qreal \<times> qreal"
type_synonym QPolygonF = "QPointF list"

record QRectF =
  rect_x :: qreal
  rect_y :: qreal
  rect_width :: qreal
  rect_height :: qreal

text \<open>\<open>QSizeF::isEmpty\<close>: a size is empty when either extent is not positive.\<close>

definition isEmpty_size :: "qreal \<times> qreal \<Rightarrow> bool" where
  "isEmpty_size s = (fst s \<le> 0 \<or> snd s \<le> 0)"

definition rect_size :: "QRectF \<Rightarrow> qreal \<times> qreal" where
  "rect_size r = (rect_width r, rect_height r)"

text \<open>
  Equality of two \<open>QPointF\<close> is not exact. In Qt 4 and Qt 5 \<open>operator==\<close> is
  \<open>qFuzzyIsNull(p1.x - p2.x) && qFuzzyIsNull(p1.y - p2.y)\<close>, and \<open>qFuzzyIsNull(d)\<close> is
  \<open>qAbs(d) <= 0.000000000001\<close>; the literal is the double nearest to \<open>1 / 10 ^ 12\<close>.
\<close>

definition qFuzzyIsNull :: "qreal \<Rightarrow> bool" where
  "qFuzzyIsNull d = (\<bar>d\<bar> \<le> rnd (1 / 10 ^ 12))"

definition QPointF_eq :: "QPointF \<Rightarrow> QPointF \<Rightarrow> bool" where
  "QPointF_eq p1 p2 =
     (qFuzzyIsNull (fsub (fst p1) (fst p2)) \<and> qFuzzyIsNull (fsub (snd p1) (snd p2)))"

subsection \<open>32-bit integers\<close>

text \<open>
  Two things of C++ are undefined and are fixed here as follows. A conversion of a double
  to \<open>int\<close> drops the fraction (towards zero); when the result does not fit 32 bits the
  conversion has no value, \<open>None\<close>. Arithmetic on \<open>int\<close> that overflows wraps around
  modulo \<open>2 ^ 32\<close>, as the compiled code does.
\<close>

definition in_qint32 :: "int \<Rightarrow> bool" where
  "in_qint32 i = (- (2 ^ 31) \<le> i \<and> i < 2 ^ 31)"

definition wrap32 :: "int \<Rightarrow> int" where
  "wrap32 i = (i + 2 ^ 31) mod 2 ^ 32 - 2 ^ 31"

definition qint32_of_qreal :: "qreal \<Rightarrow> int option" where
  "qint32_of_qreal d =
     (let t = (if 0 \<le> d then \<lfloor>d\<rfloor> else \<lceil>d\<rceil>) in if in_qint32 t then Some t else None)"

text \<open>
  \<open>qRound\<close> of \<open>qglobal.h\<close> (Qt 4 and Qt 5):
  \<open>d >= 0.0 ? int(d + 0.5) : int(d - double(int(d-1)) + 0.5) + int(d-1)\<close>,
  every sum and difference a rounded operation on doubles.
\<close>

definition qRound :: "qreal \<Rightarrow> int option" where
  "qRound d =
     (if 0 \<le> d then qint32_of_qreal (fadd d (1 / 2))
      else do {
        k1 \<leftarrow> qint32_of_qreal (fsub d 1);
        k2 \<leftarrow> qint32_of_qreal (fadd (fsub d (of_int k1)) (1 / 2));
        Some (wrap32 (k2 + k1))
      })"

subsection \<open>Polygons\<close>

text \<open>
  The loop of \<open>QPolygonF::boundingRect\<close> over one coordinate: it starts from the first
  point and widens the interval \<open>[lo, hi]\<close> point by point. Width and height are the
  differences \<open>maxx - minx\<close> and \<open>maxy - miny\<close> of doubles.
\<close>

fun minmax :: "qreal \<Rightarrow> qreal \<Rightarrow> qreal list \<Rightarrow> qreal \<times> qreal" where
  "minmax lo hi [] = (lo, hi)"
| "minmax lo hi (v # vs) =
     (if v < lo then minmax v hi vs
      else if v > hi then minmax lo v vs
      else minmax lo hi vs)"

definition boundingRect_points :: "QPointF list \<Rightarrow> QRectF" where
  "boundingRect_points ps =
     (case ps of
        [] \<Rightarrow> \<lparr>rect_x = 0, rect_y = 0, rect_width = 0, rect_height = 0\<rparr>
      | p # rest \<Rightarrow>
          (let (minx, maxx) = minmax (fst p) (fst p) (map fst rest);
               (miny, maxy) = minmax (snd p) (snd p) (map snd rest)
           in \<lparr>rect_x = minx, rect_y = miny,
               rect_width = fsub maxx minx, rect_height = fsub maxy miny\<rparr>))"

text \<open>
  \<open>QPolygonF::isClosed\<close>: not empty, and the first point equals the last one in the sense
  of \<open>QPointF\<close>.
\<close>

definition isClosed :: "QPolygonF \<Rightarrow> bool" where
  "isClosed ps = (ps \<noteq> [] \<and> QPointF_eq (hd ps) (last ps))"

definition translate_points :: "qreal \<Rightarrow> qreal \<Rightarrow> QPointF list \<Rightarrow> QPointF list" where
  "translate_points dx dy ps = map (\<lambda>p. (fadd (fst p) dx, fadd (snd p) dy)) ps"

subsection \<open>QTransform\<close>

record QTransform =
  m11 :: qreal
  m12 :: qreal
  m21 :: qreal
  m22 :: qreal
  m_dx :: qreal
  m_dy :: qreal

definition identity_transform :: QTransform where
  "identity_transform = \<lparr>m11 = 1, m12 = 0, m21 = 0, m22 = 1, m_dx = 0, m_dy = 0\<rparr>"

definition fromScale :: "qreal \<Rightarrow> qreal \<Rightarrow> QTransform" where
  "fromScale sx sy = \<lparr>m11 = sx, m12 = 0, m21 = 0, m22 = sy, m_dx = 0, m_dy = 0\<rparr>"

text \<open>
  \<open>QTransform::rotate\<close> about the Z axis. Qt takes the sine and cosine of the quarter
  turns exactly (\<open>90\<close>, \<open>-270\<close>: sine 1; \<open>270\<close>, \<open>-90\<close>: sine -1; \<open>180\<close>: cosine -1) and
  of every other angle from the trigonometric functions, which this model leaves out.
  The matrix is multiplied in the general affine form; on the transforms that occur here
  (the identity, a scaling) the shorter forms that Qt selects by the type of the matrix
  give the same doubles, a product with 0 or 1 and a sum with 0 being exact.
\<close>

definition sin_cos_deg :: "int \<Rightarrow> (qreal \<times> qreal) option" where
  "sin_cos_deg a =
     (if a = 90 \<or> a = - 270 then Some (1, 0)
      else if a = 270 \<or> a = - 90 then Some (- 1, 0)
      else if a = 180 then Some (0, - 1)
      else None)"

definition rotate_transform :: "int \<Rightarrow> QTransform \<Rightarrow> QTransform option" where
  "rotate_transform a t =
     (if a = 0 then Some t
      else do {
        (sina, cosa) \<leftarrow> sin_cos_deg a;
        Some (t\<lparr>m11 := fadd (fmul cosa (m11 t)) (fmul sina (m21 t)),
                m12 := fadd (fmul cosa (m12 t)) (fmul sina (m22 t)),
                m21 := fadd (fmul (- sina) (m11 t)) (fmul cosa (m21 t)),
                m22 := fadd (fmul (- sina) (m12 t)) (fmul cosa (m22 t))\<rparr>)
      })"

text \<open>
  \<open>QTransform::map\<close> on a point: \<open>nx = m11 * x + m21 * y + dx\<close> and
  \<open>ny = m12 * x + m22 * y + dy\<close>, evaluated from the left.
\<close>

definition map_point :: "QTransform \<Rightarrow> QPointF \<Rightarrow> QPointF" where
  "map_point t p =
     (fadd (fadd (fmul (m11 t) (fst p)) (fmul (m21 t) (snd p))) (m_dx t),
      fadd (fadd (fmul (m12 t) (fst p)) (fmul (m22 t) (snd p))) (m_dy t))"

definition map_polygon :: "QTransform \<Rightarrow> QPolygonF \<Rightarrow> QPolygonF" where
  "map_polygon t ps = map (map_point t) ps"

subsection \<open>Painter paths\<close>

text \<open>
  A \<open>QPainterPath\<close> made of straight segments: its elements in order. \<open>addPolygon\<close>
  moves to the first point of the polygon and draws a line to each further one.
\<close>

datatype Element = MoveToElement QPointF | LineToElement QPointF

type_synonym QPainterPath = "Element list"

fun element_point :: "Element \<Rightarrow> QPointF" where
  "element_point (MoveToElement p) = p"
| "element_point (LineToElement p) = p"

fun translate_element :: "qreal \<Rightarrow> qreal \<Rightarrow> Element \<Rightarrow> Element" where
  "translate_element dx dy (MoveToElement p) = MoveToElement (fadd (fst p) dx, fadd (snd p) dy)"
| "translate_element dx dy (LineToElement p) = LineToElement (fadd (fst p) dx, fadd (snd p) dy)"

definition addPolygon :: "QPolygonF \<Rightarrow> QPainterPath" where
  "addPolygon ps = (case ps of [] \<Rightarrow> [] | p # rest \<Rightarrow> MoveToElement p # map LineToElement rest)"

definition translate_path :: "QPointF \<Rightarrow> QPainterPath \<Rightarrow> QPainterPath" where
  "translate_path d path = map (translate_element (fst d) (snd d)) path"

definition boundingRect_path :: "QPainterPath \<Rightarrow> QRectF" where
  "boundingRect_path path = boundingRect_points (map element_point path)"

section \<open>The block\<close>

text \<open>
  The members of \<open>CBlock\<close> that the handlers read or write, with the state of the
  \<open>QGraphicsItem\<close> base class they use (position, Z value, scale, the movable flag).
  Brush and pen only reach the painter. \<open>m_pTransform\<close> is reset before its only use and
  is a local value of \<open>wheelEvent\<close> here.
\<close>

record CBlock =
  m_nID :: "16 word"
  m_PolyShape :: QPolygonF
  m_nGrid :: "16 word"
  m_bBarrier :: bool
  m_bMousePressed :: bool
  m_posBlockSelected :: QPointF
  item_pos :: QPointF
  item_zValue :: qreal
  item_scale :: qreal
  item_movable :: bool

definition getIndex :: "CBlock \<Rightarrow> 16 word" where
  "getIndex this = m_nID this"

definition boundingRect :: "CBlock \<Rightarrow> QRectF" where
  "boundingRect this = boundingRect_points (m_PolyShape this)"

definition shape :: "CBlock \<Rightarrow> QPainterPath" where
  "shape this = addPolygon (m_PolyShape this)"

subsection \<open>snapToGrid\<close>

text \<open>
  \<open>int x = qRound(point.x() / m_nGrid) * m_nGrid\<close>: the quotient is a division of
  doubles and the product a multiplication of \<open>int\<close>. With a grid size of zero the
  quotient is no finite double and the function has no value here.
\<close>

definition snapToGrid :: "CBlock \<Rightarrow> QPointF \<Rightarrow> QPointF option" where
  "snapToGrid this point =
     (let g = uint (m_nGrid this) in
      if g = 0 then None
      else do {
        rx \<leftarrow> qRound (fdiv (fst point) (of_int g));
        let x = wrap32 (rx * g);
        ry \<leftarrow> qRound (fdiv (snd point) (of_int g));
        let y = wrap32 (ry * g);
        Some (of_int x, of_int y)
      })"

section \<open>The board\<close>

text \<open>
  Blocks are objects held by pointer: \<open>blocks\<close> gives the object at each address and
  \<open>listBlocks\<close> is the list \<open>*m_pListBlocks\<close> of pointers that every block shares. The
  list may hold the block that handles an event, any number of times, or not at all.
  \<open>effects\<close> records, in order, the signals emitted and the geometric queries made on
  peers (\<open>collidesWithItem\<close> and \<open>QPainterPath::intersected\<close>).
\<close>

datatype Signal = incrementMoves | checkPuzzleSolved

datatype Effect = Emit Signal | Call_collidesWithItem nat | Call_intersected nat

record World =
  blocks :: "nat \<Rightarrow> CBlock"
  listBlocks :: "nat list"
  effects :: "Effect list"

definition update_block :: "nat \<Rightarrow> (CBlock \<Rightarrow> CBlock) \<Rightarrow> World \<Rightarrow> World" where
  "update_block a f w = w\<lparr>blocks := (blocks w)(a := f (blocks w a))\<rparr>"

definition emit :: "Signal \<Rightarrow> World \<Rightarrow> World" where
  "emit s w = w\<lparr>effects := effects w @ [Emit s]\<rparr>"

text \<open>
  The path algebra of Qt is a parameter of the model: the broad test
  \<open>QGraphicsItem::collidesWithItem\<close> on two items as they stand in the scene, and
  \<open>QPainterPath::intersected\<close> and \<open>QPainterPath::simplified\<close>.
\<close>

record QtGeometry =
  collidesWithItem :: "CBlock \<Rightarrow> CBlock \<Rightarrow> bool"
  intersected :: "QPainterPath \<Rightarrow> QPainterPath \<Rightarrow> QPainterPath"
  simplified :: "QPainterPath \<Rightarrow> QPainterPath"

datatype MouseButton = NoButton | LeftButton | RightButton | MiddleButton

datatype Orientation = Horizontal | Vertical

record QGraphicsSceneMouseEvent =
  button :: MouseButton

record QGraphicsSceneWheelEvent =
  orientation :: Orientation
  delta :: int

subsection \<open>Construction\<close>

datatype Message =
    Debug_CreatingBlock "16 word" QPointF
  | Debug_CreatingBarrier "16 word" QPointF
  | Warning_ShapeNotClosed "16 word"

definition setPos :: "QPointF \<Rightarrow> CBlock \<Rightarrow> CBlock" where
  "setPos p this = this\<lparr>item_pos := p\<rparr>"

definition moveBlockGrid :: "QPointF \<Rightarrow> CBlock \<Rightarrow> CBlock" where
  "moveBlockGrid p this =
     setPos (fmul (fst p) (of_int (uint (m_nGrid this))),
             fmul (snd p) (of_int (uint (m_nGrid this)))) this"

text \<open>
  The constructor: the new object and the lines it writes to the debug and warning
  streams. A fresh \<open>QGraphicsItem\<close> is at the origin with Z value 0 and scale 1, and a
  fresh \<open>QPointF\<close> member is the origin.
\<close>

definition new_CBlock ::
  "16 word \<Rightarrow> QPolygonF \<Rightarrow> 16 word \<Rightarrow> QPointF \<Rightarrow> bool \<Rightarrow> CBlock \<times> Message list" where
  "new_CBlock nID poly nGrid posTopLeft bBarrier =
     (let this = \<lparr>m_nID = nID, m_PolyShape = poly, m_nGrid = nGrid, m_bBarrier = bBarrier,
                  m_bMousePressed = False, m_posBlockSelected = (0, 0),
                  item_pos = (0, 0), item_zValue = 0, item_scale = 1, item_movable = False\<rparr>;
          scaled = (fmul (fst posTopLeft) (of_int (uint nGrid)),
                    fmul (snd posTopLeft) (of_int (uint nGrid)));
          out1 = (if \<not> bBarrier then [Debug_CreatingBlock nID scaled]
                  else [Debug_CreatingBarrier nID scaled]);
          out2 = (if \<not> isClosed poly then [Warning_ShapeNotClosed nID] else []);
          this1 = (if \<not> bBarrier then this\<lparr>item_movable := True\<rparr> else this);
          this2 = this1\<lparr>item_scale := of_int (uint nGrid)\<rparr>
      in (moveBlockGrid posTopLeft this2, out1 @ out2))"

subsection \<open>Press: start of a drag, or flip\<close>

definition setNewZValue :: "16 word \<Rightarrow> CBlock \<Rightarrow> CBlock" where
  "setNewZValue nZ this =
     (if sint nZ < 0 then
        (if item_zValue this > 1 then this\<lparr>item_zValue := fsub (item_zValue this) 1\<rparr>
         else this\<lparr>item_zValue := 1\<rparr>)
      else this\<lparr>item_zValue := of_int (sint nZ)\<rparr>)"

primrec lowerAll :: "nat list \<Rightarrow> World \<Rightarrow> World" where
  "lowerAll [] w = w"
| "lowerAll (a # rest) w = lowerAll rest (update_block a (setNewZValue (- 1)) w)"

definition flip :: "CBlock \<Rightarrow> CBlock" where
  "flip this =
     (let this1 = this\<lparr>m_PolyShape := map_polygon (fromScale (- 1) 1) (m_PolyShape this)\<rparr>
      in this1\<lparr>m_PolyShape :=
           translate_points (rect_width (boundingRect this1)) 0 (m_PolyShape this1)\<rparr>)"

text \<open>
  After its own branches the handler calls \<open>update()\<close> and the handler of the base
  class; neither moves the item, changes its shape or its Z value (a drag moves the item
  in \<open>QGraphicsItem::mouseMoveEvent\<close>).
\<close>

definition mousePressEvent :: "nat \<Rightarrow> QGraphicsSceneMouseEvent \<Rightarrow> World \<Rightarrow> World" where
  "mousePressEvent this p_Event w =
     (if button p_Event = LeftButton \<and> \<not> m_bBarrier (blocks w this) then
        (let w1 = update_block this (\<lambda>b. b\<lparr>m_bMousePressed := True\<rparr>) w;
             w2 = lowerAll (listBlocks w1) w1;
             w3 = update_block this
                    (\<lambda>b. b\<lparr>item_zValue := of_nat (length (listBlocks w2) + 2)\<rparr>) w2
         in update_block this (\<lambda>b. b\<lparr>m_posBlockSelected := item_pos b\<rparr>) w3)
      else if button p_Event = RightButton \<and> \<not> m_bBarrier (blocks w this) then
        update_block this flip w
      else w)"

subsection \<open>Wheel: rotation\<close>

definition wheelEvent :: "nat \<Rightarrow> QGraphicsSceneWheelEvent \<Rightarrow> World \<Rightarrow> World option" where
  "wheelEvent this p_Event w =
     (if orientation p_Event = Vertical \<and> \<not> m_bBarrier (blocks w this) then
        do {
          (nAngle, nTranslateX, nTranslateY) \<leftarrow>
            (if delta p_Event < 0 then
               do { t \<leftarrow> qint32_of_qreal (rect_height (boundingRect (blocks w this)));
                    Some (90, t, 0) }
             else
               do { t \<leftarrow> qint32_of_qreal (rect_width (boundingRect (blocks w this)));
                    Some (- 90, 0, t) });
          m_pTransform \<leftarrow> rotate_transform nAngle identity_transform;
          Some (update_block this
                 (\<lambda>b. b\<lparr>m_PolyShape :=
                    translate_points (of_int nTranslateX) (of_int nTranslateY)
                      (map_polygon m_pTransform (m_PolyShape b))\<rparr>) w)
        }
      else Some w)"

subsection \<open>Collision check\<close>

definition gridCoords :: "16 word \<Rightarrow> QPointF \<Rightarrow> QPointF option" where
  "gridCoords nGrid p =
     (if uint nGrid = 0 then None
      else Some (fdiv (fst p) (of_int (uint nGrid)), fdiv (snd p) (of_int (uint nGrid))))"

text \<open>
  The body of the \<open>foreach\<close> loop of \<open>checkCollision\<close> for one pointer of the list:
  the queries it makes on that peer, and whether it leaves the loop with \<open>true\<close>.
\<close>

definition checkPeer ::
  "QtGeometry \<Rightarrow> (nat \<Rightarrow> CBlock) \<Rightarrow> nat \<Rightarrow> QPainterPath \<Rightarrow> nat \<Rightarrow> (Effect list \<times> bool) option"
where
  "checkPeer qt h this thisPath a =
     (if getIndex (h a) \<noteq> m_nID (h this) then
        (if collidesWithItem qt (h this) (h a) then
           (case gridCoords (m_nGrid (h this)) (item_pos (h a)) of
              None \<Rightarrow> None
            | Some d \<Rightarrow>
                (let collidingPath = translate_path d (shape (h a));
                     intersectedPath = simplified qt (intersected qt thisPath collidingPath)
                 in Some ([Call_collidesWithItem a, Call_intersected a],
                          \<not> isEmpty_size (rect_size (boundingRect_path intersectedPath)))))
         else Some ([Call_collidesWithItem a], False))
      else Some ([], False))"

fun collisionScan ::
  "QtGeometry \<Rightarrow> (nat \<Rightarrow> CBlock) \<Rightarrow> nat \<Rightarrow> QPainterPath \<Rightarrow> nat list \<Rightarrow> (Effect list \<times> bool) option"
where
  "collisionScan qt h this thisPath [] = Some ([], False)"
| "collisionScan qt h this thisPath (a # rest) =
     (case checkPeer qt h this thisPath a of
        None \<Rightarrow> None
      | Some (queries, hit) \<Rightarrow>
          (if hit then Some (queries, True)
           else (case collisionScan qt h this thisPath rest of
                   None \<Rightarrow> None
                 | Some (later, r) \<Rightarrow> Some (queries @ later, r))))"

definition checkCollision ::
  "QtGeometry \<Rightarrow> nat \<Rightarrow> QPainterPath \<Rightarrow> World \<Rightarrow> (Effect list \<times> bool) option" where
  "checkCollision qt this thisPath w = collisionScan qt (blocks w) this thisPath (listBlocks w)"

subsection \<open>Release: end of a drag\<close>

definition mouseReleaseEvent ::
  "QtGeometry \<Rightarrow> nat \<Rightarrow> QGraphicsSceneMouseEvent \<Rightarrow> World \<Rightarrow> World option" where
  "mouseReleaseEvent qt this p_Event w =
     (if button p_Event = LeftButton \<and> \<not> m_bBarrier (blocks w this) then
        do {
          let w1 = update_block this (\<lambda>b. b\<lparr>m_bMousePressed := False\<rparr>) w;
          snapped \<leftarrow> snapToGrid (blocks w1 this) (item_pos (blocks w1 this));
          let w2 = update_block this (setPos snapped) w1;
          d \<leftarrow> gridCoords (m_nGrid (blocks w2 this)) (item_pos (blocks w2 this));
          let thisPath = translate_path d (shape (blocks w2 this));
          let w3 = emit incrementMoves w2;
          (queries, hit) \<leftarrow> checkCollision qt this thisPath w3;
          let w4 = w3\<lparr>effects := effects w3 @ queries\<rparr>;
          if hit then
            do {
              back \<leftarrow> snapToGrid (blocks w4 this) (m_posBlockSelected (blocks w4 this));
              Some (update_block this (setPos back) w4)
            }
          else Some (emit checkPuzzleSolved w4)
        }
      else Some w)"

section \<open>Auxiliary notions and sample boards\<close>

text \<open>
  The extent of a list of coordinates as an exact real number: the largest minus the
  smallest. The bounding rectangle measures the rounded extent.
\<close>

definition extent :: "qreal list \<Rightarrow> real" where
  "extent vs = (case vs of [] \<Rightarrow> 0 | v # rest \<Rightarrow> snd (minmax v v rest) - fst (minmax v v rest))"

text \<open>
  A polygon turned about the origin as \<open>wheelEvent\<close> turns it: the transform is reset,
  rotated by the angle and applied to every vertex.
\<close>

definition rotated :: "int \<Rightarrow> QPolygonF \<Rightarrow> QPolygonF option" where
  "rotated a ps = map_option (\<lambda>t. map_polygon t ps) (rotate_transform a identity_transform)"

text \<open>
  Coordinates in binary fixed point: whole multiples of \<open>1 / 2 ^ 20\<close> of magnitude at
  most \<open>B\<close>. Such numbers are doubles, and so are their sums and differences as far as
  the handlers form them.
\<close>

definition on_grid :: "real \<Rightarrow> qreal \<Rightarrow> bool" where
  "on_grid B v = (of_int \<lfloor>v * 2 ^ 20\<rfloor> = v * 2 ^ 20 \<and> \<bar>v\<bar> \<le> B)"

definition grid_polygon :: "real \<Rightarrow> QPolygonF \<Rightarrow> bool" where
  "grid_polygon B ps = list_all (\<lambda>p. on_grid B (fst p) \<and> on_grid B (snd p)) ps"

text \<open>
  What a flip and one or two wheel steps come to in exact arithmetic, vertex by vertex;
  \<open>down\<close> is a negative delta.
\<close>

definition mirrored :: "CBlock \<Rightarrow> CBlock" where
  "mirrored b =
     b\<lparr>m_PolyShape :=
         map (\<lambda>p. (extent (map fst (m_PolyShape b)) - fst p, snd p)) (m_PolyShape b)\<rparr>"

definition quarterTurn :: "bool \<Rightarrow> CBlock \<Rightarrow> CBlock" where
  "quarterTurn down b =
     (if down
      then b\<lparr>m_PolyShape :=
             map (\<lambda>p. (of_int \<lfloor>extent (map snd (m_PolyShape b))\<rfloor> - snd p, fst p)) (m_PolyShape b)\<rparr>
      else b\<lparr>m_PolyShape :=
             map (\<lambda>p. (snd p, of_int \<lfloor>extent (map fst (m_PolyShape b))\<rfloor> - fst p)) (m_PolyShape b)\<rparr>)"

definition halfTurn :: "CBlock \<Rightarrow> CBlock" where
  "halfTurn b =
     b\<lparr>m_PolyShape :=
         map (\<lambda>p. (of_int \<lfloor>extent (map fst (m_PolyShape b))\<rfloor> - fst p,
                    of_int \<lfloor>extent (map snd (m_PolyShape b))\<rfloor> - snd p)) (m_PolyShape b)\<rparr>"

text \<open>
  The bounding rectangle that \<open>checkCollision\<close> measures for one peer: that of the
  simplified intersection of the candidate path with the peer's outline in board
  coordinates.
\<close>

definition overlapBox ::
  "QtGeometry \<Rightarrow> (nat \<Rightarrow> CBlock) \<Rightarrow> nat \<Rightarrow> QPainterPath \<Rightarrow> nat \<Rightarrow> QRectF option" where
  "overlapBox qt h this thisPath a =
     map_option
       (\<lambda>d. boundingRect_path (simplified qt (intersected qt thisPath (translate_path d (shape (h a))))))
       (gridCoords (m_nGrid (h this)) (item_pos (h a)))"

text \<open>
  An instance of the path algebra for boards of axis-aligned rectangles, where every
  outline stands for its bounding rectangle: two items collide when their rectangles in
  the scene meet (a shared edge or corner counts), the intersection of two paths is the
  rectangle they share, and simplification drops a path that encloses no area. Two
  rectangles touch when they meet and what they share has no width or no height.
\<close>

definition rect_right :: "QRectF \<Rightarrow> qreal" where
  "rect_right r = fadd (rect_x r) (rect_width r)"

definition rect_bottom :: "QRectF \<Rightarrow> qreal" where
  "rect_bottom r = fadd (rect_y r) (rect_height r)"

definition sceneRect :: "CBlock \<Rightarrow> QRectF" where
  "sceneRect b =
     (let r = boundingRect b
      in \<lparr>rect_x = fadd (fst (item_pos b)) (fmul (item_scale b) (rect_x r)),
          rect_y = fadd (snd (item_pos b)) (fmul (item_scale b) (rect_y r)),
          rect_width = fmul (item_scale b) (rect_width r),
          rect_height = fmul (item_scale b) (rect_height r)\<rparr>)"

definition rects_meet :: "QRectF \<Rightarrow> QRectF \<Rightarrow> bool" where
  "rects_meet r1 r2 =
     (max (rect_x r1) (rect_x r2) \<le> min (rect_right r1) (rect_right r2) \<and>
      max (rect_y r1) (rect_y r2) \<le> min (rect_bottom r1) (rect_bottom r2))"

definition rects_touch :: "QRectF \<Rightarrow> QRectF \<Rightarrow> bool" where
  "rects_touch r1 r2 =
     (rects_meet r1 r2 \<and>
      (max (rect_x r1) (rect_x r2) = min (rect_right r1) (rect_right r2) \<or>
       max (rect_y r1) (rect_y r2) = min (rect_bottom r1) (rect_bottom r2)))"

definition corner_path :: "qreal \<Rightarrow> qreal \<Rightarrow> qreal \<Rightarrow> qreal \<Rightarrow> QPainterPath" where
  "corner_path x0 y0 x1 y1 =
     [MoveToElement (x0, y0), LineToElement (x1, y0), LineToElement (x1, y1),
      LineToElement (x0, y1), LineToElement (x0, y0)]"

definition common_path :: "QRectF \<Rightarrow> QRectF \<Rightarrow> QPainterPath" where
  "common_path r1 r2 =
     corner_path (max (rect_x r1) (rect_x r2)) (max (rect_y r1) (rect_y r2))
       (min (rect_right r1) (rect_right r2)) (min (rect_bottom r1) (rect_bottom r2))"

definition rectangleGeometry :: QtGeometry where
  "rectangleGeometry =
     \<lparr>collidesWithItem =
        (\<lambda>a b. m_PolyShape a \<noteq> [] \<and> m_PolyShape b \<noteq> [] \<and> rects_meet (sceneRect a) (sceneRect b)),
      intersected =
        (\<lambda>p q. if p = [] \<or> q = [] \<or> \<not> rects_meet (boundingRect_path p) (boundingRect_path q)
               then []
               else common_path (boundingRect_path p) (boundingRect_path q)),
      simplified =
        (\<lambda>p. if isEmpty_size (rect_size (boundingRect_path p)) then [] else p)\<rparr>"

text \<open>Shapes in grid units: a cell, an L of three cells, a domino, and a slab of 5/2 by 3/2.\<close>

definition unitSquare :: QPolygonF where
  "unitSquare = [(0, 0), (1, 0), (1, 1), (0, 1), (0, 0)]"

definition pieceL :: QPolygonF where
  "pieceL = [(0, 0), (2, 0), (2, 1), (1, 1), (1, 2), (0, 2), (0, 0)]"

definition slab :: QPolygonF where
  "slab = [(0, 0), (5 / 2, 0), (5 / 2, 3 / 2), (0, 3 / 2), (0, 0)]"

definition domino :: QPolygonF where
  "domino = [(0, 0), (2, 0), (2, 1), (0, 1), (0, 0)]"

text \<open>
  Shapes whose coordinates are decimal fractions, each written as the C++ literal is
  read: the double nearest to it. A bar from 0.1 to 0.7 along X, a bar from 0.2 to 1.3
  along Y, and a bar from 0.3 to 3.3 along Y.
\<close>

definition bar17 :: QPolygonF where
  "bar17 = [(rnd (1 / 10), 0), (rnd (7 / 10), 0), (rnd (7 / 10), 1), (rnd (1 / 10), 1),
            (rnd (1 / 10), 0)]"

definition bar213 :: QPolygonF where
  "bar213 = [(0, rnd (1 / 5)), (1, rnd (1 / 5)), (1, rnd (13 / 10)), (0, rnd (13 / 10)),
             (0, rnd (1 / 5))]"

definition bar333 :: QPolygonF where
  "bar333 = [(0, rnd (3 / 10)), (1, rnd (3 / 10)), (1, rnd (33 / 10)), (0, rnd (33 / 10)),
             (0, rnd (3 / 10))]"



text \<open>
  A board with grid size 10: block 1 in cell (0, 0), block 2 in cell (2, 0) and a
  barrier in cell (0, 3), at the addresses 0, 1 and 2.
\<close>

definition blockA :: CBlock where
  "blockA = fst (new_CBlock 1 unitSquare 10 (0, 0) False)"

definition blockB :: CBlock where
  "blockB = fst (new_CBlock 2 unitSquare 10 (2, 0) False)"

definition wall :: CBlock where
  "wall = fst (new_CBlock 3 unitSquare 10 (0, 3) True)"

definition blockD :: CBlock where
  "blockD = fst (new_CBlock 6 domino 10 (0, 0) False)"

definition blockL :: CBlock where
  "blockL = fst (new_CBlock 4 pieceL 10 (0, 0) False)"

definition blockSlab :: CBlock where
  "blockSlab = fst (new_CBlock 5 slab 10 (0, 0) False)"

definition block17 :: CBlock where
  "block17 = fst (new_CBlock 8 bar17 10 (0, 0) False)"

definition block213 :: CBlock where
  "block213 = fst (new_CBlock 9 bar213 10 (0, 0) False)"

definition block333 :: CBlock where
  "block333 = fst (new_CBlock 10 bar333 10 (0, 0) False)"

text \<open>A block of one cell on a board with grid size 1.\<close>

definition blockU :: CBlock where
  "blockU = fst (new_CBlock 11 unitSquare 1 (0, 0) False)"

definition board :: World where
  "board = \<lparr>blocks = (\<lambda>a. if a = 0 then blockA else if a = 1 then blockB else wall),
            listBlocks = [0, 1, 2], effects = []\<rparr>"

text \<open>The shape of the block at an address after a handler has run.\<close>

definition shapeAt :: "nat \<Rightarrow> World option \<Rightarrow> QPolygonF option" where
  "shapeAt a r = map_option (\<lambda>w. m_PolyShape (blocks w a)) r"

text \<open>A board that holds one block, at address 0.\<close>

definition alone :: "CBlock \<Rightarrow> World" where
  "alone b = \<lparr>blocks = (\<lambda>a. b), listBlocks = [0], effects = []\<rparr>"

definition leftButton :: QGraphicsSceneMouseEvent where
  "leftButton = \<lparr>button = LeftButton\<rparr>"

definition rightButton :: QGraphicsSceneMouseEvent where
  "rightButton = \<lparr>button = RightButton\<rparr>"

definition wheelDown :: QGraphicsSceneWheelEvent where
  "wheelDown = \<lparr>orientation = Vertical, delta = - 120\<rparr>"

definition wheelUp :: QGraphicsSceneWheelEvent where
  "wheelUp = \<lparr>orientation = Vertical, delta = 120\<rparr>"

definition wheelSideways :: QGraphicsSceneWheelEvent where
  "wheelSideways = \<lparr>orientation = Horizontal, delta = 120\<rparr>"

text \<open>
  The board after block 1 was pressed with the primary button and dragged to a pixel
  position, and the outline of one cell in board coordinates.
\<close>

definition dragged :: "QPointF \<Rightarrow> World" where
  "dragged p = update_block 0 (setPos p) (mousePressEvent 0 leftButton board)"

definition cellPath :: "QPointF \<Rightarrow> QPainterPath" where
  "cellPath c = translate_path c (addPolygon unitSquare)"

section \<open>Properties\<close>

subsection \<open>Rounding to the nearest double\<close>

lemma top_exp_range: "- 1022 \<le> top_exp n a \<and> top_exp n a \<le> int n - 1022"
  by (induction n) auto

lemma top_exp_lower: "- 1022 < top_exp n a \<Longrightarrow> 2 powi (top_exp n a) \<le> a"
  by (induction n) (auto split: if_splits)

lemma top_exp_upper: "a < 2 powi (int n - 1021) \<Longrightarrow> a < 2 powi (top_exp n a + 1)"
proof (induction n)
  case 0
  then show ?case by simp
next
  case (Suc n)
  show ?case
  proof (cases "2 powi (int (Suc n) - 1022) \<le> a")
    case True
    with Suc.prems show ?thesis by (simp add: algebra_simps)
  next
    case False
    then have "a < 2 powi (int n - 1021)" by (simp add: algebra_simps)
    with Suc.IH False show ?thesis by simp
  qed
qed

lemma expo_range: "- 1022 \<le> expo x" "expo x \<le> 1023"
  using top_exp_range [of 2045 "\<bar>x\<bar>"] by (simp_all add: expo_def)

lemma expo_lower: "- 1022 < expo x \<Longrightarrow> 2 powi (expo x) \<le> \<bar>x\<bar>"
  unfolding expo_def by (rule top_exp_lower)

lemma expo_upper: "\<bar>x\<bar> < 2 powi 1024 \<Longrightarrow> \<bar>x\<bar> < 2 powi (expo x + 1)"
  unfolding expo_def using top_exp_upper [of "\<bar>x\<bar>" 2045] by simp

lemma expo_eq:
  assumes "- 1022 \<le> e" "e \<le> 1023" "e = - 1022 \<or> 2 powi e \<le> \<bar>x\<bar>" "\<bar>x\<bar> < 2 powi (e + 1)"
  shows "expo x = e"
proof (rule antisym)
  have "\<bar>x\<bar> < 2 powi 1024"
  proof -
    have "(2::real) powi (e + 1) \<le> 2 powi 1024"
      using assms(2) by (intro power_int_increasing) simp_all
    with assms(4) show ?thesis by simp
  qed
  show "expo x \<le> e"
  proof (rule ccontr)
    assume "\<not> expo x \<le> e"
    then have lt: "e + 1 \<le> expo x" by simp
    with assms(1) have "- 1022 < expo x" by simp
    then have "2 powi (expo x) \<le> \<bar>x\<bar>" by (rule expo_lower)
    moreover have "(2::real) powi (e + 1) \<le> 2 powi (expo x)"
      using lt by (intro power_int_increasing) simp_all
    ultimately show False using assms(4) by simp
  qed
  show "e \<le> expo x"
  proof (rule ccontr)
    assume "\<not> e \<le> expo x"
    then have lt: "expo x + 1 \<le> e" by simp
    with expo_range(1) [of x] have "e \<noteq> - 1022" by simp
    with assms(3) have "2 powi e \<le> \<bar>x\<bar>" by simp
    moreover have "(2::real) powi (expo x + 1) \<le> 2 powi e"
      using lt by (intro power_int_increasing) simp_all
    moreover have "\<bar>x\<bar> < 2 powi (expo x + 1)"
      using \<open>\<bar>x\<bar> < 2 powi 1024\<close> by (rule expo_upper)
    ultimately show False by simp
  qed
qed

lemma expo_neg [simp]: "expo (- x) = expo x"
  by (simp add: expo_def)

lemma round_even_of_int [simp]: "round_even (of_int n) = n"
  by (simp add: round_even_def)

lemma round_even_bounds:
  "of_int (round_even r) \<le> r + 1 / 2" "r - 1 / 2 \<le> of_int (round_even r)"
  unfolding round_even_def Let_def by (auto; linarith)+

lemma round_even_mono: "r \<le> s \<Longrightarrow> round_even r \<le> round_even s"
proof -
  assume rs: "r \<le> s"
  then have fl: "\<lfloor>r\<rfloor> \<le> \<lfloor>s\<rfloor>" by (rule floor_mono)
  show ?thesis
  proof (cases "\<lfloor>r\<rfloor> = \<lfloor>s\<rfloor>")
    case True
    with rs show ?thesis by (auto simp: round_even_def Let_def)
  next
    case False
    with fl have "\<lfloor>r\<rfloor> + 1 \<le> \<lfloor>s\<rfloor>" by simp
    moreover have "round_even r \<le> \<lfloor>r\<rfloor> + 1" by (auto simp: round_even_def Let_def)
    moreover have "\<lfloor>s\<rfloor> \<le> round_even s" by (auto simp: round_even_def Let_def)
    ultimately show ?thesis by linarith
  qed
qed

lemma round_even_neg: "round_even (- r) = - round_even r"
proof (cases "r \<in> \<int>")
  case True
  then obtain n where "r = of_int n" by (auto elim: Ints_cases)
  then show ?thesis by (simp flip: of_int_minus)
next
  case False
  have ne: "r \<noteq> of_int \<lfloor>r\<rfloor>" using False by (metis Ints_of_int)
  then have fl: "\<lfloor>- r\<rfloor> = - \<lfloor>r\<rfloor> - 1"
    by (simp add: floor_minus ceiling_altdef)
  have fr: "r - of_int \<lfloor>r\<rfloor> < 1" "0 \<le> r - of_int \<lfloor>r\<rfloor>" by linarith+
  show ?thesis
    unfolding round_even_def Let_def fl
    using fr ne by (auto simp: algebra_simps)
qed


lemma round_even_0 [simp]: "round_even 0 = 0"
  by (simp add: round_even_def)

lemma round_even_nonneg: "0 \<le> r \<Longrightarrow> 0 \<le> round_even r"
  using round_even_mono [of 0 r] by simp

lemma rnd_neg: "rnd (- x) = - rnd x"
  by (simp add: rnd_def round_even_neg)

lemma rnd_0 [simp]: "rnd 0 = 0"
  by (simp add: rnd_def)

lemma rnd_nonneg: "0 \<le> x \<Longrightarrow> 0 \<le> rnd x"
  by (simp add: rnd_def round_even_nonneg)

lemma rnd_nonpos: "x \<le> 0 \<Longrightarrow> rnd x \<le> 0"
  using rnd_nonneg [of "- x"] by (simp add: rnd_neg)

lemma powi_pos: "0 < (2::real) powi k"
  by (simp add: zero_less_power_int)

lemma rnd_scaled_int:
  assumes "x / 2 powi (expo x - 52) = of_int n"
  shows "rnd x = x"
proof -
  have "rnd x = of_int n * 2 powi (expo x - 52)"
    by (simp add: rnd_def assms)
  also have "\<dots> = x / 2 powi (expo x - 52) * 2 powi (expo x - 52)"
    by (simp only: assms)
  also have "\<dots> = x"
    using powi_pos [of "expo x - 52"] by simp
  finally show ?thesis .
qed

lemma rnd_fixed:
  assumes x: "x = of_int m * 2 powi k" and k: "- 1074 \<le> k" and m: "\<bar>m\<bar> \<le> 2 ^ 53"
  shows "rnd x = x"
proof -
  define j where "j = expo x - 52"
  have quot: "x / 2 powi j = of_int m * 2 powi (k - j)"
    unfolding x by (simp add: power_int_diff)
  show ?thesis
  proof (cases "j \<le> k")
    case True
    then have "(2::real) powi (k - j) = of_int (2 ^ nat (k - j))"
      by (simp add: power_int_def)
    then have "x / 2 powi j = of_int (m * 2 ^ nat (k - j))"
      unfolding quot by simp
    then show ?thesis unfolding j_def by (rule rnd_scaled_int)
  next
    case False
    then have e: "k + 53 \<le> expo x" by (simp add: j_def)
    with k have "- 1022 < expo x" by simp
    then have lo: "2 powi (expo x) \<le> \<bar>x\<bar>" by (rule expo_lower)
    have "(2::real) powi (k + 53) \<le> 2 powi (expo x)"
      using e by (intro power_int_increasing) simp_all
    with lo have "2 powi (k + 53) \<le> \<bar>x\<bar>" by simp
    also have "\<bar>x\<bar> = of_int \<bar>m\<bar> * 2 powi k"
      unfolding x by (simp add: abs_mult)
    finally have "2 powi k * 2 powi 53 \<le> of_int \<bar>m\<bar> * (2::real) powi k"
      by (simp add: power_int_add)
    then have "(2::real) powi 53 \<le> of_int \<bar>m\<bar>"
      using powi_pos [of k] by (simp add: mult.commute)
    then have "(2::real) ^ 53 \<le> of_int \<bar>m\<bar>" by simp
    then have "(2::int) ^ 53 \<le> \<bar>m\<bar>"
      by (metis of_int_le_iff of_int_numeral of_int_power)
    with m have am: "\<bar>m\<bar> = 2 ^ 53" by simp
    have ux: "\<bar>x\<bar> = 2 powi (k + 53)"
      using \<open>\<bar>x\<bar> = of_int \<bar>m\<bar> * 2 powi k\<close> unfolding am by (simp add: power_int_add)
    have "expo x = k + 53"
    proof (rule expo_eq)
      show "- 1022 \<le> k + 53" using k by simp
      show "k + 53 \<le> 1023" using e expo_range(2) [of x] by simp
      show "k + 53 = - 1022 \<or> 2 powi (k + 53) \<le> \<bar>x\<bar>" using ux by simp
      show "\<bar>x\<bar> < 2 powi (k + 53 + 1)"
        unfolding ux by (intro power_int_strict_increasing) simp_all
    qed
    then have j: "j = k + 1" by (simp add: j_def)
    have "k - j = - 1" using j by simp
    with quot have "x / 2 powi j = of_int m * 2 powi (- 1)"
      by (simp only:)
    then have half: "x / 2 powi j = of_int m / 2"
      by (simp only: power_int_minus power_int_1_right divide_inverse)
    from am have "m = 2 ^ 53 \<or> m = - (2 ^ 53)" by linarith
    then have "(of_int m :: real) / 2 = of_int (m div 2)"
      by auto
    with half have "x / 2 powi j = of_int (m div 2)"
      by (simp only:)
    then show ?thesis unfolding j_def by (rule rnd_scaled_int)
  qed
qed

lemma rnd_of_int: "\<bar>m\<bar> \<le> 2 ^ 53 \<Longrightarrow> rnd (of_int m) = of_int m"
  using rnd_fixed [of "of_int m" m 0] by simp

lemma top_exp_mono: "a \<le> b \<Longrightarrow> top_exp n a \<le> top_exp n b"
proof (induction n)
  case 0
  then show ?case by simp
next
  case (Suc n)
  from top_exp_range [of n b] have "top_exp n b \<le> int (Suc n) - 1022" by simp
  moreover from top_exp_range [of n a] have "top_exp n a \<le> int (Suc n) - 1022" by simp
  ultimately show ?case using Suc by auto
qed

lemma expo_mono: "\<bar>x\<bar> \<le> \<bar>y\<bar> \<Longrightarrow> expo x \<le> expo y"
  unfolding expo_def by (rule top_exp_mono)

lemma expo_top: "2 powi 1023 \<le> \<bar>x\<bar> \<Longrightarrow> expo x = 1023"
  by (simp add: expo_def eval_nat_numeral)


lemma rnd_upper:
  assumes "0 \<le> x" and "x < 2 powi (expo x + 1)"
  shows "rnd x \<le> 2 powi (expo x + 1)"
proof -
  define u :: real where "u = 2 powi (expo x - 52)"
  have u: "0 < u" unfolding u_def by (rule powi_pos)
  have top: "2 powi (expo x + 1) = 2 ^ 53 * u"
    unfolding u_def by (simp add: power_int_diff power_int_add)
  from assms(2) have "x / u \<le> 2 ^ 53"
    unfolding top using u by (simp add: field_simps)
  then have "round_even (x / u) \<le> round_even (of_int (2 ^ 53))"
    by (intro round_even_mono) simp
  then have "round_even (x / u) \<le> 2 ^ 53" by (simp only: round_even_of_int)
  then have "(of_int (round_even (x / u)) :: real) \<le> of_int (2 ^ 53)"
    by (simp only: of_int_le_iff)
  then have "of_int (round_even (x / u)) * u \<le> 2 ^ 53 * u"
    using u by simp
  then show ?thesis unfolding top rnd_def u_def .
qed

lemma rnd_lower:
  assumes "2 powi (expo x) \<le> x"
  shows "2 powi (expo x) \<le> rnd x"
proof -
  define u :: real where "u = 2 powi (expo x - 52)"
  have u: "0 < u" unfolding u_def by (rule powi_pos)
  have bot: "2 powi (expo x) = 2 ^ 52 * u"
    unfolding u_def by (simp add: power_int_diff)
  from assms have "2 ^ 52 \<le> x / u"
    unfolding bot using u by (simp add: field_simps)
  then have "round_even (of_int (2 ^ 52)) \<le> round_even (x / u)"
    by (intro round_even_mono) simp
  then have "2 ^ 52 \<le> round_even (x / u)" by (simp only: round_even_of_int)
  then have "(of_int (2 ^ 52) :: real) \<le> of_int (round_even (x / u))"
    by (simp only: of_int_le_iff)
  then have "2 ^ 52 * u \<le> of_int (round_even (x / u)) * u"
    using u by simp
  then show ?thesis unfolding bot rnd_def u_def .
qed

lemma rnd_mono_nonneg:
  assumes "0 \<le> x" and "x \<le> y"
  shows "rnd x \<le> rnd y"
proof -
  from assms have y: "0 \<le> y" by simp
  from assms have "\<bar>x\<bar> \<le> \<bar>y\<bar>" by simp
  then have e: "expo x \<le> expo y" by (rule expo_mono)
  show ?thesis
  proof (cases "expo x = expo y")
    case True
    have "x / 2 powi (expo y - 52) \<le> y / 2 powi (expo y - 52)"
      using assms(2) powi_pos [of "expo y - 52"] by (simp add: divide_right_mono)
    then have "round_even (x / 2 powi (expo y - 52)) \<le> round_even (y / 2 powi (expo y - 52))"
      by (rule round_even_mono)
    then show ?thesis
      unfolding rnd_def True using powi_pos [of "expo y - 52"] by simp
  next
    case False
    with e have lt: "expo x + 1 \<le> expo y" by simp
    have small: "\<bar>x\<bar> < 2 powi 1024"
    proof (rule ccontr)
      assume "\<not> \<bar>x\<bar> < 2 powi 1024"
      then have "2 powi 1024 \<le> \<bar>x\<bar>" by simp
      moreover have "(2::real) powi 1023 \<le> 2 powi 1024"
        by (intro power_int_increasing) simp_all
      ultimately have "2 powi 1023 \<le> \<bar>x\<bar>" by linarith
      then have "expo x = 1023" by (rule expo_top)
      with lt expo_range(2) [of y] show False by simp
    qed
    then have "\<bar>x\<bar> < 2 powi (expo x + 1)" by (rule expo_upper)
    with assms(1) have "x < 2 powi (expo x + 1)" by simp
    with assms(1) have "rnd x \<le> 2 powi (expo x + 1)" by (rule rnd_upper)
    also have "(2::real) powi (expo x + 1) \<le> 2 powi (expo y)"
      using lt by (intro power_int_increasing) simp_all
    also have "2 powi (expo y) \<le> rnd y"
    proof (rule rnd_lower)
      from lt expo_range(1) [of x] have "- 1022 < expo y" by simp
      then have "2 powi (expo y) \<le> \<bar>y\<bar>" by (rule expo_lower)
      with y show "2 powi (expo y) \<le> y" by simp
    qed
    finally show ?thesis .
  qed
qed

lemma rnd_mono: "x \<le> y \<Longrightarrow> rnd x \<le> rnd y"
proof -
  assume xy: "x \<le> y"
  consider "0 \<le> x" | "y \<le> 0" | "x \<le> 0" "0 \<le> y" by linarith
  then show ?thesis
  proof cases
    case 1
    then show ?thesis using xy by (rule rnd_mono_nonneg)
  next
    case 2
    then have "0 \<le> - y" and "- y \<le> - x" using xy by simp_all
    then have "rnd (- y) \<le> rnd (- x)" by (rule rnd_mono_nonneg)
    then show ?thesis by (simp add: rnd_neg)
  next
    case 3
    then have "rnd x \<le> 0" and "0 \<le> rnd y" by (simp_all add: rnd_nonpos rnd_nonneg)
    then show ?thesis by simp
  qed
qed

lemma rnd_le: "x \<le> b \<Longrightarrow> rnd b = b \<Longrightarrow> rnd x \<le> b"
  using rnd_mono [of x b] by simp

lemma rnd_ge: "b \<le> x \<Longrightarrow> rnd b = b \<Longrightarrow> b \<le> rnd x"
  using rnd_mono [of b x] by simp

lemma rnd_eval:
  assumes "- 1022 \<le> e" and "e \<le> 1023" and "e = - 1022 \<or> 2 powi e \<le> \<bar>x\<bar>"
    and "\<bar>x\<bar> < 2 powi (e + 1)" and "round_even (x / 2 powi (e - 52)) = n"
  shows "rnd x = of_int n * 2 powi (e - 52)"
proof -
  from assms(1-4) have "expo x = e" by (rule expo_eq)
  then show ?thesis by (simp add: rnd_def assms(5))
qed

lemma rnd_idem: "rnd (rnd x) = rnd x"
proof (cases "\<bar>x\<bar> < 2 powi 1024")
  case True
  define n where "n = round_even (x / 2 powi (expo x - 52))"
  have r: "rnd x = of_int n * 2 powi (expo x - 52)" by (simp add: rnd_def n_def)
  have "\<bar>rnd x\<bar> \<le> 2 powi (expo x + 1)"
  proof (cases "0 \<le> x")
    case True
    with \<open>\<bar>x\<bar> < 2 powi 1024\<close> have "x < 2 powi (expo x + 1)"
      using expo_upper [of x] by simp
    with True have "rnd x \<le> 2 powi (expo x + 1)" by (rule rnd_upper)
    moreover from True have "0 \<le> rnd x" by (rule rnd_nonneg)
    ultimately show ?thesis by simp
  next
    case False
    then have nx: "0 \<le> - x" by simp
    with \<open>\<bar>x\<bar> < 2 powi 1024\<close> have "- x < 2 powi (expo (- x) + 1)"
      using expo_upper [of x] by simp
    with nx have "rnd (- x) \<le> 2 powi (expo (- x) + 1)" by (rule rnd_upper)
    moreover from nx have "0 \<le> rnd (- x)" by (rule rnd_nonneg)
    ultimately show ?thesis by (simp add: rnd_neg)
  qed
  then have "(of_int \<bar>n\<bar> :: real) * 2 powi (expo x - 52) \<le> 2 ^ 53 * 2 powi (expo x - 52)"
    unfolding r by (simp add: abs_mult power_int_diff power_int_add)
  then have "(of_int \<bar>n\<bar> :: real) \<le> 2 ^ 53"
    using powi_pos [of "expo x - 52"] by simp
  then have "(of_int \<bar>n\<bar> :: real) \<le> of_int (2 ^ 53)" by simp
  then have "\<bar>n\<bar> \<le> 2 ^ 53" by (simp only: of_int_le_iff)
  moreover have "- 1074 \<le> expo x - 52" using expo_range(1) [of x] by simp
  ultimately show ?thesis using r by (intro rnd_fixed [of _ n "expo x - 52"])
next
  case False
  then have big: "2 powi 1024 \<le> \<bar>x\<bar>" by simp
  have "(2::real) powi 1023 \<le> 2 powi 1024"
    by (intro power_int_increasing) simp_all
  with big have x1023: "2 powi 1023 \<le> \<bar>x\<bar>" by linarith
  then have e: "expo x = 1023" by (rule expo_top)
  have "2 powi 1023 \<le> \<bar>rnd x\<bar>"
  proof (cases "0 \<le> x")
    case True
    with x1023 have "2 powi (expo x) \<le> x" by (simp add: e)
    then have "2 powi (expo x) \<le> rnd x" by (rule rnd_lower)
    then show ?thesis by (simp add: e)
  next
    case False
    with x1023 have "2 powi (expo (- x)) \<le> - x" by (simp add: e)
    then have "2 powi (expo (- x)) \<le> rnd (- x)" by (rule rnd_lower)
    then show ?thesis by (simp add: e rnd_neg)
  qed
  then have e': "expo (rnd x) = 1023" by (rule expo_top)
  have "rnd x / 2 powi (expo (rnd x) - 52) = of_int (round_even (x / 2 powi (expo x - 52)))"
    unfolding e' by (simp add: rnd_def e)
  then show ?thesis by (rule rnd_scaled_int)
qed

lemma rnd_dyadic:
  assumes "\<bar>m\<bar> \<le> 2 ^ 53" and "k \<le> 1074"
  shows "rnd (of_int m / 2 ^ k) = of_int m / 2 ^ k"
proof (rule rnd_fixed [of _ m "- int k"])
  show "(of_int m :: real) / 2 ^ k = of_int m * 2 powi (- int k)"
    by (simp add: power_int_minus divide_inverse)
  show "- 1074 \<le> - int k" using assms(2) by simp
  show "\<bar>m\<bar> \<le> 2 ^ 53" by (rule assms(1))
qed

lemma rnd_int_frac:
  assumes "\<bar>k\<bar> \<le> 2 ^ 31" and "\<bar>j\<bar> \<le> 2 ^ 21"
  shows "rnd (of_int k + of_int j / 2 ^ 20) = of_int k + of_int j / 2 ^ 20"
proof -
  have "\<bar>k * 2 ^ 20\<bar> \<le> 2 ^ 31 * 2 ^ 20"
    using assms(1) by (simp add: abs_mult)
  then have "\<bar>k * 2 ^ 20 + j\<bar> \<le> 2 ^ 53"
    using assms(2) by simp
  then have "rnd (of_int (k * 2 ^ 20 + j) / 2 ^ 20) = of_int (k * 2 ^ 20 + j) / 2 ^ 20"
    by (rule rnd_dyadic) simp
  moreover have "(of_int (k * 2 ^ 20 + j) :: real) / 2 ^ 20 = of_int k + of_int j / 2 ^ 20"
    by (simp add: field_simps)
  ultimately show ?thesis by (simp only:)
qed

lemma rnd_int_half:
  "\<bar>k\<bar> \<le> 2 ^ 31 \<Longrightarrow> rnd (of_int k + 1 / 2) = of_int k + 1 / 2"
  using rnd_int_frac [of k "2 ^ 19"] by simp

lemma rnd_numeral [simp]: "(numeral n :: int) \<le> 2 ^ 53 \<Longrightarrow> rnd (numeral n) = numeral n"
  using rnd_of_int [of "numeral n"] by simp

lemma rnd_1 [simp]: "rnd 1 = 1"
  using rnd_of_int [of 1] by simp

lemma rnd_numeral_half [simp]:
  "(numeral n :: int) \<le> 2 ^ 53 \<Longrightarrow> rnd (numeral n / 2) = numeral n / 2"
  using rnd_dyadic [of "numeral n" 1] by simp

lemma rnd_one_half [simp]: "rnd (1 / 2) = 1 / 2"
  using rnd_dyadic [of 1 1] by simp

declare rnd_neg [simp]

lemma rnd_between:
  assumes "a \<le> x" and "x \<le> b" and "rnd a = a" and "rnd b = b"
  shows "a \<le> rnd x" and "rnd x \<le> b"
  using assms rnd_mono [of a x] rnd_mono [of x b] by simp_all

lemmas fp_defs = fadd_def fsub_def fmul_def fdiv_def

subsection \<open>Conversion to int and qRound\<close>

lemma qint32_floor:
  "0 \<le> d \<Longrightarrow> \<lfloor>d\<rfloor> < 2 ^ 31 \<Longrightarrow> qint32_of_qreal d = Some \<lfloor>d\<rfloor>"
  by (simp add: qint32_of_qreal_def in_qint32_def)

lemma qint32_ceiling:
  "d < 0 \<Longrightarrow> - (2 ^ 31) \<le> \<lceil>d\<rceil> \<Longrightarrow> qint32_of_qreal d = Some \<lceil>d\<rceil>"
proof -
  assume d: "d < 0" and lo: "- (2 ^ 31) \<le> \<lceil>d\<rceil>"
  from d have "\<lceil>d\<rceil> \<le> 0" by (simp add: ceiling_le_iff)
  with d lo show ?thesis by (simp add: qint32_of_qreal_def in_qint32_def)
qed

lemma wrap32_id: "in_qint32 i \<Longrightarrow> wrap32 i = i"
  by (simp add: wrap32_def in_qint32_def)

text \<open>
  The floor of a double that lies between \<open>n + 1 / 2\<close> and \<open>m + 1 / 2\<close> lies between
  \<open>n\<close> and \<open>m\<close>.
\<close>

lemma floor_half_between:
  fixes s :: real
  assumes "of_int n + 1 / 2 \<le> s" and "s \<le> of_int m + 1 / 2"
  shows "n \<le> \<lfloor>s\<rfloor>" and "\<lfloor>s\<rfloor> \<le> m"
proof -
  from assms(1) have "of_int n \<le> s" by simp
  then show "n \<le> \<lfloor>s\<rfloor>" by (simp add: le_floor_iff)
  from assms(2) have "s < of_int (m + 1)" by simp
  then have "\<lfloor>s\<rfloor> < m + 1" by (simp only: floor_less_iff)
  then show "\<lfloor>s\<rfloor> \<le> m" by simp
qed

lemma round_step:
  assumes "of_int n \<le> t" and "t \<le> of_int m" and "0 \<le> n" and "m \<le> 2 ^ 31 - 1"
  shows "\<exists>k. qint32_of_qreal (fadd t (1 / 2)) = Some k \<and> n \<le> k \<and> k \<le> m"
proof -
  from assms have "of_int n \<le> (of_int m :: real)" by linarith
  then have "n \<le> m" by (simp only: of_int_le_iff)
  with assms have nm: "\<bar>n\<bar> \<le> 2 ^ 31" "\<bar>m\<bar> \<le> 2 ^ 31" by simp_all
  define s where "s = fadd t (1 / 2)"
  have s1: "of_int n + 1 / 2 \<le> s" and s2: "s \<le> of_int m + 1 / 2"
    unfolding s_def fadd_def
    using rnd_between [of "of_int n + 1 / 2" "t + 1 / 2" "of_int m + 1 / 2"] assms(1,2)
      rnd_int_half [OF nm(1)] rnd_int_half [OF nm(2)]
    by simp_all
  from floor_half_between [OF s1 s2] have k: "n \<le> \<lfloor>s\<rfloor>" "\<lfloor>s\<rfloor> \<le> m" .
  from s1 assms(3) have "0 \<le> s" by simp
  moreover from k assms(4) have "\<lfloor>s\<rfloor> < 2 ^ 31" by linarith
  ultimately have "qint32_of_qreal s = Some \<lfloor>s\<rfloor>" by (rule qint32_floor)
  with k show ?thesis unfolding s_def by blast
qed

text \<open>
  \<open>qRound\<close> gives one of the two whole numbers next to its argument, and the argument
  itself when that is whole.
\<close>

lemma qRound_between:
  assumes "\<bar>d\<bar> \<le> 2 ^ 31 - 2"
  shows "\<exists>k. qRound d = Some k \<and> \<lfloor>d\<rfloor> \<le> k \<and> k \<le> \<lceil>d\<rceil>"
proof (cases "0 \<le> d")
  case True
  have hi: "\<lceil>d\<rceil> \<le> 2 ^ 31 - 1"
    using assms by (simp add: ceiling_le_iff)
  from True have lo: "0 \<le> \<lfloor>d\<rfloor>" by simp
  have "\<exists>k. qint32_of_qreal (fadd d (1 / 2)) = Some k \<and> \<lfloor>d\<rfloor> \<le> k \<and> k \<le> \<lceil>d\<rceil>"
    using lo hi by (intro round_step) simp_all
  with True show ?thesis by (simp add: qRound_def)
next
  case False
  define f where "f = \<lfloor>d\<rfloor>"
  define c where "c = \<lceil>d\<rceil>"
  have fd: "of_int f \<le> d" and dc: "d \<le> of_int c"
    unfolding f_def c_def by simp_all
  from False have c0: "c \<le> 0" unfolding c_def by (simp add: ceiling_le_iff)
  have flo: "- (2 ^ 31) + 2 \<le> f"
    using assms False unfolding f_def by (simp add: le_floor_iff)
  have fc: "f \<le> c" unfolding f_def c_def by (rule floor_le_ceiling)
  have cf: "c \<le> f + 1" unfolding f_def c_def using ceiling_diff_floor_le_1 [of d] by simp
  define r1 where "r1 = fsub d 1"
  have r1: "of_int (f - 1) \<le> r1" "r1 \<le> of_int (c - 1)"
  proof -
    have "\<bar>f - 1\<bar> \<le> 2 ^ 53" "\<bar>c - 1\<bar> \<le> 2 ^ 53" using flo fc c0 by simp_all
    then have "rnd (of_int (f - 1)) = of_int (f - 1)" "rnd (of_int (c - 1)) = of_int (c - 1)"
      by (simp_all only: rnd_of_int)
    with rnd_between [of "of_int (f - 1)" "d - 1" "of_int (c - 1)"] fd dc
    show "of_int (f - 1) \<le> r1" "r1 \<le> of_int (c - 1)"
      unfolding r1_def fsub_def by simp_all
  qed
  from r1(2) c0 have r1neg: "r1 < 0" by simp
  define k1 where "k1 = \<lceil>r1\<rceil>"
  have k1lo: "f - 1 \<le> k1" unfolding k1_def using r1(1) by (simp add: le_ceiling_iff)
  have k1hi: "k1 \<le> c - 1" unfolding k1_def using r1(2) by (simp only: ceiling_le_iff)
  from k1lo flo have "- (2 ^ 31) \<le> k1" by simp
  with r1neg have conv1: "qint32_of_qreal r1 = Some k1"
    unfolding k1_def by (rule qint32_ceiling)
  define t where "t = fsub d (of_int k1)"
  have t: "of_int (f - k1) \<le> t" "t \<le> of_int (c - k1)"
  proof -
    have "\<bar>f - k1\<bar> \<le> 2 ^ 53" "\<bar>c - k1\<bar> \<le> 2 ^ 53" using k1lo k1hi fc cf by simp_all
    then have "rnd (of_int (f - k1)) = of_int (f - k1)" "rnd (of_int (c - k1)) = of_int (c - k1)"
      by (simp_all only: rnd_of_int)
    with rnd_between [of "of_int (f - k1)" "d - of_int k1" "of_int (c - k1)"] fd dc
    show "of_int (f - k1) \<le> t" "t \<le> of_int (c - k1)"
      unfolding t_def fsub_def by simp_all
  qed
  have "\<exists>k. qint32_of_qreal (fadd t (1 / 2)) = Some k \<and> f - k1 \<le> k \<and> k \<le> c - k1"
    using t k1lo k1hi fc cf by (intro round_step) simp_all
  then obtain k2 where conv2: "qint32_of_qreal (fadd t (1 / 2)) = Some k2"
    and k2: "f - k1 \<le> k2" "k2 \<le> c - k1" by blast
  have "in_qint32 (k2 + k1)"
    using k2 flo c0 by (simp add: in_qint32_def)
  then have "wrap32 (k2 + k1) = k2 + k1" by (rule wrap32_id)
  with False conv1 conv2 have "qRound d = Some (k2 + k1)"
    by (simp add: qRound_def r1_def [symmetric] t_def [symmetric])
  with k2 show ?thesis unfolding f_def c_def by (intro exI [of _ "k2 + k1"]) simp
qed

lemma qRound_of_int:
  assumes "\<bar>k\<bar> \<le> 2 ^ 31 - 2"
  shows "qRound (of_int k) = Some k"
proof -
  have "\<bar>(of_int k :: real)\<bar> \<le> 2 ^ 31 - 2"
    using assms by (simp flip: of_int_abs)
  from qRound_between [OF this] show ?thesis by auto
qed

text \<open>
  Away from the ties \<open>qRound\<close> rounds to the nearest whole number: an argument within
  \<open>1 / 2 - 1 / 2 ^ 20\<close> of a whole number is rounded to it.
\<close>

lemma near_step:
  assumes "of_int n - (1 / 2 - 1 / 2 ^ 20) \<le> t" and "t \<le> of_int n + (1 / 2 - 1 / 2 ^ 20)"
    and "0 \<le> n" and "n \<le> 2 ^ 31 - 1"
  shows "qint32_of_qreal (fadd t (1 / 2)) = Some n"
proof -
  from assms(3,4) have n: "\<bar>n\<bar> \<le> 2 ^ 31" by simp
  define s where "s = fadd t (1 / 2)"
  have a: "rnd (of_int n + 1 / 2 ^ 20) = of_int n + 1 / 2 ^ 20"
    using rnd_int_frac [OF n, of 1] by simp
  have b: "rnd (of_int n + 1048575 / 2 ^ 20) = of_int n + 1048575 / 2 ^ 20"
    using rnd_int_frac [OF n, of 1048575] by simp
  have s1: "of_int n + 1 / 2 ^ 20 \<le> s" and s2: "s \<le> of_int n + 1048575 / 2 ^ 20"
    unfolding s_def fadd_def
    using rnd_between [of "of_int n + 1 / 2 ^ 20" "t + 1 / 2" "of_int n + 1048575 / 2 ^ 20"]
      assms(1,2) a b
    by simp_all
  have "\<lfloor>s\<rfloor> = n"
    using s1 s2 by (intro floor_unique) simp_all
  moreover from s1 assms(3) have "0 \<le> s" by simp
  ultimately have "qint32_of_qreal s = Some n"
    using assms(4) qint32_floor [of s] by simp
  then show ?thesis unfolding s_def .
qed

lemma qRound_near:
  assumes "\<bar>d - of_int k\<bar> \<le> 1 / 2 - 1 / 2 ^ 20" and "\<bar>k\<bar> \<le> 2 ^ 31 - 2"
  shows "qRound d = Some k"
proof (cases "0 \<le> d")
  case True
  from assms(1) have dlo: "of_int k - (1 / 2 - 1 / 2 ^ 20) \<le> d"
    and dhi: "d \<le> of_int k + (1 / 2 - 1 / 2 ^ 20)" by linarith+
  have "0 \<le> k"
  proof (rule ccontr)
    assume "\<not> 0 \<le> k"
    then have "k \<le> - 1" by simp
    then have "(of_int k :: real) \<le> - 1" using of_int_le_iff [of k "- 1", where 'a = real] by simp
    with True dhi show False by simp
  qed
  moreover have "qint32_of_qreal (fadd d (1 / 2)) = Some k"
    using dlo dhi
  proof (rule near_step)
    show "0 \<le> k" by fact
    show "k \<le> 2 ^ 31 - 1" using assms(2) by simp
  qed
  ultimately show ?thesis using True by (simp add: qRound_def)
next
  case False
  from assms(1) have dlo: "of_int k - (1 / 2 - 1 / 2 ^ 20) \<le> d"
    and dhi: "d \<le> of_int k + (1 / 2 - 1 / 2 ^ 20)" by linarith+
  have k0: "k \<le> 0"
  proof (rule ccontr)
    assume "\<not> k \<le> 0"
    then have "1 \<le> k" by simp
    then have "1 \<le> (of_int k :: real)" using of_int_le_iff [of 1 k, where 'a = real] by simp
    with False dlo show False by simp
  qed
  define r1 where "r1 = fsub d 1"
  have km: "\<bar>k - 1\<bar> \<le> 2 ^ 31" using assms(2) by simp
  have a: "rnd (of_int (k - 1) + of_int (- 524287) / 2 ^ 20) = of_int (k - 1) + of_int (- 524287) / 2 ^ 20"
    by (rule rnd_int_frac [OF km]) simp
  have b: "rnd (of_int (k - 1) + of_int 524287 / 2 ^ 20) = of_int (k - 1) + of_int 524287 / 2 ^ 20"
    by (rule rnd_int_frac [OF km]) simp
  have r1: "of_int (k - 1) - 524287 / 2 ^ 20 \<le> r1" "r1 \<le> of_int (k - 1) + 524287 / 2 ^ 20"
    unfolding r1_def fsub_def
    using rnd_between [of "of_int (k - 1) + of_int (- 524287) / 2 ^ 20" "d - 1"
        "of_int (k - 1) + of_int 524287 / 2 ^ 20"] dlo dhi a b
    by simp_all
  have r1neg: "r1 < 0"
  proof -
    from k0 have "(of_int (k - 1) :: real) \<le> - 1" by simp
    with r1(2) show ?thesis by simp
  qed
  define k1 where "k1 = \<lceil>r1\<rceil>"
  have k1lo: "k - 1 \<le> k1"
  proof -
    have "of_int (k - 1 - 1) < r1" using r1(1) by simp
    then have "k - 1 - 1 < \<lceil>r1\<rceil>" by (simp only: less_ceiling_iff)
    then show ?thesis unfolding k1_def by simp
  qed
  have k1hi: "k1 \<le> k"
  proof -
    have "r1 \<le> of_int k" using r1(2) by simp
    then show ?thesis unfolding k1_def by (simp only: ceiling_le_iff)
  qed
  from k1lo assms(2) have "- (2 ^ 31) \<le> k1" by simp
  with r1neg have conv1: "qint32_of_qreal r1 = Some k1"
    unfolding k1_def by (rule qint32_ceiling)
  define n where "n = k - k1"
  have n: "0 \<le> n" "n \<le> 1" using k1lo k1hi by (simp_all add: n_def)
  then have nn: "\<bar>n\<bar> \<le> 2 ^ 31" by simp
  define t where "t = fsub d (of_int k1)"
  have a': "rnd (of_int n + of_int (- 524287) / 2 ^ 20) = of_int n + of_int (- 524287) / 2 ^ 20"
    by (rule rnd_int_frac [OF nn]) simp
  have b': "rnd (of_int n + of_int 524287 / 2 ^ 20) = of_int n + of_int 524287 / 2 ^ 20"
    by (rule rnd_int_frac [OF nn]) simp
  have t: "of_int n - (1 / 2 - 1 / 2 ^ 20) \<le> t" "t \<le> of_int n + (1 / 2 - 1 / 2 ^ 20)"
    unfolding t_def fsub_def
    using rnd_between [of "of_int n + of_int (- 524287) / 2 ^ 20" "d - of_int k1"
        "of_int n + of_int 524287 / 2 ^ 20"] dlo dhi a' b'
    by (simp_all add: n_def)
  have conv2: "qint32_of_qreal (fadd t (1 / 2)) = Some n"
    using t n by (intro near_step) simp_all
  have "in_qint32 (n + k1)"
    using assms(2) by (simp add: n_def in_qint32_def abs_le_iff)
  then have "wrap32 (n + k1) = k" by (simp add: wrap32_id n_def)
  with False conv1 conv2 show ?thesis
    by (simp add: qRound_def r1_def [symmetric] t_def [symmetric])
qed

subsection \<open>Snapping\<close>

lemma snapToGrid_eval:
  assumes "uint (m_nGrid this) \<noteq> 0"
    and "qRound (fdiv (fst p) (of_int (uint (m_nGrid this)))) = Some i"
    and "qRound (fdiv (snd p) (of_int (uint (m_nGrid this)))) = Some j"
  shows "snapToGrid this p =
           Some (of_int (wrap32 (i * uint (m_nGrid this))), of_int (wrap32 (j * uint (m_nGrid this))))"
  using assms by (simp add: snapToGrid_def Let_def)

text \<open>One axis of \<open>snapToGrid\<close> for a coordinate \<open>v\<close> and a grid size \<open>g\<close>.\<close>

lemma quotient_bounds:
  fixes v :: real
  assumes "0 < g" and "\<bar>v\<bar> \<le> 2 ^ 31 - 2 ^ 16"
  shows "- (2 ^ 31 - 2 ^ 16) \<le> \<lfloor>v / of_int g\<rfloor>" and "\<lceil>v / of_int g\<rceil> \<le> 2 ^ 31 - 2 ^ 16"
    and "\<bar>v / of_int g\<bar> \<le> 2 ^ 31 - 2 ^ 16"
proof -
  from assms(1) have g1: "1 \<le> (of_int g :: real)" by simp
  have "\<bar>v / of_int g\<bar> = \<bar>v\<bar> / of_int g" using assms(1) by simp
  also have "\<dots> \<le> \<bar>v\<bar> / 1" using g1 by (intro divide_left_mono) simp_all
  finally have q: "\<bar>v / of_int g\<bar> \<le> \<bar>v\<bar>" by simp
  with assms(2) show b: "\<bar>v / of_int g\<bar> \<le> 2 ^ 31 - 2 ^ 16" by linarith
  have e: "(of_int (2 ^ 31 - 2 ^ 16) :: real) = 2 ^ 31 - 2 ^ 16" by simp
  from b have "- of_int (2 ^ 31 - 2 ^ 16) \<le> v / of_int g"
    unfolding e by linarith
  then have "of_int (- (2 ^ 31 - 2 ^ 16)) \<le> v / of_int g" by (simp only: of_int_minus)
  then show "- (2 ^ 31 - 2 ^ 16) \<le> \<lfloor>v / of_int g\<rfloor>" by (simp only: le_floor_iff)
  from b have "v / of_int g \<le> of_int (2 ^ 31 - 2 ^ 16)" unfolding e by linarith
  then show "\<lceil>v / of_int g\<rceil> \<le> 2 ^ 31 - 2 ^ 16" by (simp only: ceiling_le_iff)
qed

lemma snap_axis_between:
  fixes v :: real
  assumes "0 < g" and "g < 2 ^ 16" and "\<bar>v\<bar> \<le> 2 ^ 31 - 2 ^ 16"
  shows "\<exists>k. qRound (fdiv v (of_int g)) = Some k \<and>
           \<lfloor>v / of_int g\<rfloor> \<le> k \<and> k \<le> \<lceil>v / of_int g\<rceil> \<and>
           in_qint32 (k * g) \<and> \<bar>k\<bar> \<le> 2 ^ 31 - 2"
proof -
  define q where "q = v / of_int g"
  define f where "f = \<lfloor>q\<rfloor>"
  define c where "c = \<lceil>q\<rceil>"
  note qb = quotient_bounds [OF assms(1,3), folded q_def f_def c_def]
  have fc: "f \<le> c" unfolding f_def c_def by (rule floor_le_ceiling)
  have rf: "rnd (of_int f) = of_int f" and rc: "rnd (of_int c) = of_int c"
    using qb(1,2) fc by (simp_all add: rnd_of_int abs_le_iff)
  have d: "of_int f \<le> fdiv v (of_int g)" "fdiv v (of_int g) \<le> of_int c"
    unfolding fdiv_def q_def [symmetric]
    using rnd_between [of "of_int f" q "of_int c"] rf rc
    by (simp_all add: f_def c_def)
  have "\<bar>fdiv v (of_int g)\<bar> \<le> 2 ^ 31 - 2"
  proof -
    from qb(1) have "(of_int (- (2 ^ 31 - 2 ^ 16)) :: real) \<le> of_int f"
      by (simp only: of_int_le_iff)
    moreover from qb(2) have "(of_int c :: real) \<le> of_int (2 ^ 31 - 2 ^ 16)"
      by (simp only: of_int_le_iff)
    ultimately show ?thesis using d by simp
  qed
  from qRound_between [OF this] obtain k where
      k: "qRound (fdiv v (of_int g)) = Some k"
      and lo: "\<lfloor>fdiv v (of_int g)\<rfloor> \<le> k" and hi: "k \<le> \<lceil>fdiv v (of_int g)\<rceil>"
    by blast
  have "f \<le> \<lfloor>fdiv v (of_int g)\<rfloor>" using d(1) by (simp only: le_floor_iff)
  with lo have fk: "f \<le> k" by simp
  have "\<lceil>fdiv v (of_int g)\<rceil> \<le> c" using d(2) by (simp only: ceiling_le_iff)
  with hi have kc: "k \<le> c" by simp
  have gr: "0 < (of_int g :: real)" using assms(1) by simp
  have "(of_int c :: real) < q + 1" unfolding c_def by linarith
  with kc have "of_int k < q + 1"
    using of_int_le_iff [of k c, where 'a = real] by simp
  then have "of_int k * of_int g < (q + 1) * of_int g"
    using gr by (simp only: mult_less_cancel_right_pos)
  also have "(q + 1) * of_int g = v + of_int g"
    unfolding q_def using gr by (simp add: field_simps)
  finally have up: "(of_int (k * g) :: real) < v + of_int g" by simp
  have "q - 1 < (of_int f :: real)" unfolding f_def by linarith
  with fk have "q - 1 < of_int k"
    using of_int_le_iff [of f k, where 'a = real] by simp
  then have "(q - 1) * of_int g < of_int k * of_int g"
    using gr by (simp only: mult_less_cancel_right_pos)
  moreover have "(q - 1) * of_int g = v - of_int g"
    unfolding q_def using gr by (simp add: field_simps)
  ultimately have dn: "v - of_int g < (of_int (k * g) :: real)" by simp
  have gb: "(of_int g :: real) \<le> 2 ^ 16 - 1"
    using assms(2) of_int_le_iff [of g "2 ^ 16 - 1", where 'a = real] by simp
  from up gb assms(3) have "(of_int (k * g) :: real) < of_int (2 ^ 31)" by simp
  then have a: "k * g < 2 ^ 31" by (simp only: of_int_less_iff)
  from dn gb assms(3) have "(of_int (- (2 ^ 31)) :: real) < of_int (k * g)" by simp
  then have b: "- (2 ^ 31) < k * g" by (simp only: of_int_less_iff)
  from a b have "in_qint32 (k * g)" by (simp add: in_qint32_def)
  moreover have "\<bar>k\<bar> \<le> 2 ^ 31 - 2" using fk kc qb(1,2) by simp
  ultimately show ?thesis
    using k fk kc unfolding f_def c_def q_def by blast
qed

lemma snap_axis_near:
  fixes v :: real
  assumes "g \<noteq> 0"
    and "\<bar>v / of_int g - of_int k\<bar> \<le> 1 / 2 - 1 / 2 ^ 20" and "\<bar>k\<bar> \<le> 2 ^ 31 - 2"
  shows "qRound (fdiv v (of_int g)) = Some k"
proof -
  define q where "q = v / of_int g"
  have c: "(1 / 2 - 1 / 2 ^ 20 :: real) = 524287 / 1048576" by simp
  from assms(3) have km: "\<bar>k\<bar> \<le> 2 ^ 31" by simp
  have a: "rnd (of_int k - 524287 / 1048576) = of_int k - 524287 / 1048576"
    using rnd_int_frac [OF km, of "- 524287"] by simp
  have b: "rnd (of_int k + 524287 / 1048576) = of_int k + 524287 / 1048576"
    using rnd_int_frac [OF km, of 524287] by simp
  from assms(2) have "of_int k - 524287 / 1048576 \<le> q" and "q \<le> of_int k + 524287 / 1048576"
    unfolding q_def [symmetric] c by linarith+
  from rnd_between [OF this a b] have "\<bar>rnd q - of_int k\<bar> \<le> 524287 / 1048576"
    by linarith
  then have "\<bar>fdiv v (of_int g) - of_int k\<bar> \<le> 1 / 2 - 1 / 2 ^ 20"
    unfolding fdiv_def q_def c .
  then show ?thesis using assms(3) by (rule qRound_near)
qed

lemma near_whole_bound:
  fixes q :: real
  assumes "\<bar>q\<bar> \<le> 2 ^ 31 - 2 ^ 16" and "\<bar>q - of_int k\<bar> \<le> 1 / 2 - 1 / 2 ^ 20"
  shows "\<bar>k\<bar> \<le> 2 ^ 31 - 2"
proof -
  from assms(1) have a: "\<bar>q\<bar> \<le> 2147418112" by simp
  from assms(2) have b: "\<bar>q - of_int k\<bar> \<le> 524287 / 1048576" by simp
  from a b have "\<bar>(of_int k :: real)\<bar> < 2147418113" by linarith
  then have "(of_int \<bar>k\<bar> :: real) < of_int 2147418113" by simp
  then have "\<bar>k\<bar> < 2147418113" by (simp only: of_int_less_iff)
  then show ?thesis by simp
qed

lemma snap_axis_fixed:
  assumes "0 < g" and "\<bar>k\<bar> \<le> 2 ^ 31 - 2"
  shows "qRound (fdiv (of_int (k * g)) (of_int g)) = Some k"
proof -
  have "(of_int (k * g) :: real) / of_int g = of_int k" using assms(1) by simp
  moreover have "rnd (of_int k) = of_int k"
    using assms(2) by (intro rnd_of_int) simp
  ultimately have "fdiv (of_int (k * g)) (of_int g) = of_int k"
    by (simp add: fdiv_def)
  with qRound_of_int [OF assms(2)] show ?thesis by simp
qed

lemma uint_grid: "0 \<le> uint (g :: 16 word)" "uint (g :: 16 word) < 2 ^ 16"
  using uint_lt2p [of g] by simp_all

text \<open>
  C7, as far as it holds. For a grid size that is not zero and a point whose coordinates
  are at most \<open>2 ^ 31 - 2 ^ 16\<close> in magnitude, \<open>snapToGrid\<close> has a value, the value is
  a whole multiple of the grid size on each axis, and snapping it again returns it. The
  multiple is one of the two next to the coordinate (at the coordinate or less than a
  grid size from it), and it is the nearest one whenever the quotient of coordinate and
  grid size is within \<open>1 / 2 - 1 / 2 ^ 20\<close> of a whole number.
\<close>

theorem C7_snapToGrid_idempotent:
  assumes "m_nGrid this \<noteq> 0"
    and "\<bar>fst p\<bar> \<le> 2 ^ 31 - 2 ^ 16" and "\<bar>snd p\<bar> \<le> 2 ^ 31 - 2 ^ 16"
  shows "\<exists>i j. snapToGrid this p =
             Some (of_int (i * uint (m_nGrid this)), of_int (j * uint (m_nGrid this))) \<and>
           snapToGrid this (of_int (i * uint (m_nGrid this)), of_int (j * uint (m_nGrid this))) =
             Some (of_int (i * uint (m_nGrid this)), of_int (j * uint (m_nGrid this))) \<and>
           Option.bind (snapToGrid this p) (snapToGrid this) = snapToGrid this p \<and>
           \<lfloor>fst p / of_int (uint (m_nGrid this))\<rfloor> \<le> i \<and>
           i \<le> \<lceil>fst p / of_int (uint (m_nGrid this))\<rceil> \<and>
           \<lfloor>snd p / of_int (uint (m_nGrid this))\<rfloor> \<le> j \<and>
           j \<le> \<lceil>snd p / of_int (uint (m_nGrid this))\<rceil> \<and>
           (\<forall>k. \<bar>fst p / of_int (uint (m_nGrid this)) - of_int k\<bar> \<le> 1 / 2 - 1 / 2 ^ 20
                  \<longrightarrow> i = k) \<and>
           (\<forall>k. \<bar>snd p / of_int (uint (m_nGrid this)) - of_int k\<bar> \<le> 1 / 2 - 1 / 2 ^ 20
                  \<longrightarrow> j = k)"
proof -
  define g where "g = uint (m_nGrid this)"
  from assms(1) have g0: "g \<noteq> 0" unfolding g_def by (simp add: uint_0_iff)
  have "0 \<le> g" and glt: "g < 2 ^ 16"
    unfolding g_def by (rule uint_grid)+
  with g0 have gpos: "0 < g" by linarith
  from snap_axis_between [OF gpos glt assms(2)] obtain i where
      qi: "qRound (fdiv (fst p) (of_int g)) = Some i"
      and ib: "\<lfloor>fst p / of_int g\<rfloor> \<le> i" "i \<le> \<lceil>fst p / of_int g\<rceil>"
      and ir: "in_qint32 (i * g)" and ia: "\<bar>i\<bar> \<le> 2 ^ 31 - 2"
    by blast
  from snap_axis_between [OF gpos glt assms(3)] obtain j where
      qj: "qRound (fdiv (snd p) (of_int g)) = Some j"
      and jb: "\<lfloor>snd p / of_int g\<rfloor> \<le> j" "j \<le> \<lceil>snd p / of_int g\<rceil>"
      and jr: "in_qint32 (j * g)" and ja: "\<bar>j\<bar> \<le> 2 ^ 31 - 2"
    by blast
  let ?q = "(of_int (i * g), of_int (j * g)) :: QPointF"
  have s1: "snapToGrid this p = Some ?q"
    using snapToGrid_eval [of this p i j] g0 qi qj ir jr
    unfolding g_def [symmetric] by (simp add: wrap32_id)
  have qa: "qRound (fdiv (fst ?q) (of_int g)) = Some i"
    unfolding fst_conv by (rule snap_axis_fixed [OF gpos ia])
  have qb: "qRound (fdiv (snd ?q) (of_int g)) = Some j"
    unfolding snd_conv by (rule snap_axis_fixed [OF gpos ja])
  from snapToGrid_eval [of this ?q i j, unfolded g_def [symmetric], OF g0 qa qb]
  have s2: "snapToGrid this ?q = Some ?q"
    by (simp only: wrap32_id [OF ir] wrap32_id [OF jr])
  have near_i: "i = k" if "\<bar>fst p / of_int g - of_int k\<bar> \<le> 1 / 2 - 1 / 2 ^ 20" for k
  proof -
    have kk: "\<bar>k\<bar> \<le> 2 ^ 31 - 2"
      using quotient_bounds(3) [OF gpos assms(2)] that by (rule near_whole_bound)
    from snap_axis_near [OF g0 that kk] qi show ?thesis by simp
  qed
  have near_j: "j = k" if "\<bar>snd p / of_int g - of_int k\<bar> \<le> 1 / 2 - 1 / 2 ^ 20" for k
  proof -
    have kk: "\<bar>k\<bar> \<le> 2 ^ 31 - 2"
      using quotient_bounds(3) [OF gpos assms(3)] that by (rule near_whole_bound)
    from snap_axis_near [OF g0 that kk] qj show ?thesis by simp
  qed
  have "Option.bind (snapToGrid this p) (snapToGrid this) = snapToGrid this p"
    by (simp only: s1 s2 bind.bind_lunit)
  with s1 s2 ib jb near_i near_j show ?thesis
    unfolding g_def by blast
qed

lemma snapToGrid_near:
  assumes "uint (m_nGrid this) = g" and "g \<noteq> 0"
    and "\<bar>x / of_int g - of_int i\<bar> \<le> 1 / 2 - 1 / 2 ^ 20" and "\<bar>i\<bar> \<le> 2 ^ 31 - 2"
    and "\<bar>y / of_int g - of_int j\<bar> \<le> 1 / 2 - 1 / 2 ^ 20" and "\<bar>j\<bar> \<le> 2 ^ 31 - 2"
  shows "snapToGrid this (x, y) = Some (of_int (wrap32 (i * g)), of_int (wrap32 (j * g)))"
proof -
  have "qRound (fdiv (fst (x, y)) (of_int g)) = Some i"
    unfolding fst_conv using assms(2,3,4) by (rule snap_axis_near)
  moreover have "qRound (fdiv (snd (x, y)) (of_int g)) = Some j"
    unfolding snd_conv using assms(2,5,6) by (rule snap_axis_near)
  ultimately show ?thesis
    using snapToGrid_eval [of this "(x, y)" i j] assms(1,2) by simp
qed

lemma new_CBlock_fields:
  "m_PolyShape (fst (new_CBlock i ps g p bar)) = ps"
  "m_bBarrier (fst (new_CBlock i ps g p bar)) = bar"
  "m_nGrid (fst (new_CBlock i ps g p bar)) = g"
  "m_nID (fst (new_CBlock i ps g p bar)) = i"
  "item_pos (fst (new_CBlock i ps g p bar)) =
     (fmul (fst p) (of_int (uint g)), fmul (snd p) (of_int (uint g)))"
  "m_posBlockSelected (fst (new_CBlock i ps g p bar)) = (0, 0)"
  "item_scale (fst (new_CBlock i ps g p bar)) = of_int (uint g)"
  "item_zValue (fst (new_CBlock i ps g p bar)) = 0"
  by (simp_all add: new_CBlock_def Let_def moveBlockGrid_def setPos_def)

lemma blockA_simps:
  "m_nID blockA = 1" "m_PolyShape blockA = unitSquare" "m_nGrid blockA = 10"
  "\<not> m_bBarrier blockA" "item_pos blockA = (0, 0)" "item_scale blockA = 10"
  "m_posBlockSelected blockA = (0, 0)"
  by (simp_all add: blockA_def new_CBlock_fields fmul_def)

lemma blockU_simps: "m_nGrid blockU = 1"
  by (simp add: blockU_def new_CBlock_fields)

lemma snap_samples:
  assumes "m_nGrid b = 10"
  shows "snapToGrid b (13, 2) = Some (10, 0)" "snapToGrid b (18, 3) = Some (20, 0)"
    "snapToGrid b (0, 0) = Some (0, 0)" "snapToGrid b (14, - 26) = Some (10, - 30)"
    "snapToGrid b (10, - 30) = Some (10, - 30)"
proof -
  have g: "uint (m_nGrid b) = 10" by (simp add: assms)
  show "snapToGrid b (13, 2) = Some (10, 0)"
    using snapToGrid_near [OF g, of 13 1 2 0] by (simp add: wrap32_def)
  show "snapToGrid b (18, 3) = Some (20, 0)"
    using snapToGrid_near [OF g, of 18 2 3 0] by (simp add: wrap32_def)
  show "snapToGrid b (0, 0) = Some (0, 0)"
    using snapToGrid_near [OF g, of 0 0 0 0] by (simp add: wrap32_def)
  show "snapToGrid b (14, - 26) = Some (10, - 30)"
    using snapToGrid_near [OF g, of 14 1 "- 26" "- 3"] by (simp add: wrap32_def)
  show "snapToGrid b (10, - 30) = Some (10, - 30)"
    using snapToGrid_near [OF g, of 10 1 "- 30" "- 3"] by (simp add: wrap32_def)
qed

theorem C7_snapToGrid_idempotent_witness:
  "m_nGrid blockA \<noteq> 0 \<and>
   \<bar>fst (14 :: real, - 26 :: real)\<bar> \<le> 2 ^ 31 - 2 ^ 16 \<and>
   \<bar>snd (14 :: real, - 26 :: real)\<bar> \<le> 2 ^ 31 - 2 ^ 16 \<and>
   snapToGrid blockA (14, - 26) = Some (10, - 30) \<and>
   snapToGrid blockA (10, - 30) = Some (10, - 30) \<and>
   Option.bind (snapToGrid blockA (14, - 26)) (snapToGrid blockA) = snapToGrid blockA (14, - 26)"
proof -
  have g: "m_nGrid blockA \<noteq> 0" by (simp add: blockA_simps)
  have bx: "\<bar>fst (14 :: real, - 26 :: real)\<bar> \<le> 2 ^ 31 - 2 ^ 16"
    and by': "\<bar>snd (14 :: real, - 26 :: real)\<bar> \<le> 2 ^ 31 - 2 ^ 16" by simp_all
  from C7_snapToGrid_idempotent [OF g bx by'] obtain i j where
      s: "snapToGrid blockA (14, - 26) =
            Some (of_int (i * uint (m_nGrid blockA)), of_int (j * uint (m_nGrid blockA)))"
      and t: "snapToGrid blockA (of_int (i * uint (m_nGrid blockA)), of_int (j * uint (m_nGrid blockA))) =
            Some (of_int (i * uint (m_nGrid blockA)), of_int (j * uint (m_nGrid blockA)))"
      and b: "Option.bind (snapToGrid blockA (14, - 26)) (snapToGrid blockA) =
            snapToGrid blockA (14, - 26)"
      and ni: "\<forall>k. \<bar>fst (14 :: real, - 26 :: real) / of_int (uint (m_nGrid blockA)) - of_int k\<bar>
                  \<le> 1 / 2 - 1 / 2 ^ 20 \<longrightarrow> i = k"
      and nj: "\<forall>k. \<bar>snd (14 :: real, - 26 :: real) / of_int (uint (m_nGrid blockA)) - of_int k\<bar>
                  \<le> 1 / 2 - 1 / 2 ^ 20 \<longrightarrow> j = k"
    by blast
  from ni [rule_format, of 1] have i: "i = 1" by (simp add: blockA_simps)
  from nj [rule_format, of "- 3"] have j: "j = - 3" by (simp add: blockA_simps)
  from s t have "snapToGrid blockA (14, - 26) = Some (10, - 30)"
    and "snapToGrid blockA (10, - 30) = Some (10, - 30)"
    unfolding i j by (simp_all add: blockA_simps)
  with g bx by' b show ?thesis by blast
qed

text \<open>
  C7 does not hold for every point. On a board with grid size 10 the point
  \<open>(10000000000, 0)\<close> is snapped to \<open>(1410065408, 0)\<close>, the product
  \<open>1000000000 * 10\<close> wrapped to 32 bits, and snapping that gives \<open>(1410065410, 0)\<close>. Nor
  is the result always the nearest multiple: with grid size 1 the largest double below
  \<open>1 / 2\<close> is snapped to 1, because the sum with \<open>0.5\<close> is rounded up to 1.
\<close>

lemma below_half_plus_half:
  "fadd (9007199254740991 / 2 ^ 54) (1 / 2) = 1"
  unfolding fadd_def
  by (rule trans [OF rnd_eval [of "- 1" _ 9007199254740992]])
     (simp_all add: round_even_def Let_def)

lemma below_half_double: "rnd (9007199254740991 / 2 ^ 54) = 9007199254740991 / 2 ^ 54"
  using rnd_dyadic [of 9007199254740991 54] by simp

theorem C7_counterexample:
  "snapToGrid blockA (10000000000, 0) = Some (1410065408, 0) \<and>
   snapToGrid blockA (1410065408, 0) = Some (1410065410, 0) \<and>
   Option.bind (snapToGrid blockA (10000000000, 0)) (snapToGrid blockA) \<noteq>
     snapToGrid blockA (10000000000, 0) \<and>
   snapToGrid blockU (9007199254740991 / 2 ^ 54, 0) = Some (1, 0) \<and>
   \<bar>0 - 9007199254740991 / 2 ^ 54 :: real\<bar> < \<bar>1 - 9007199254740991 / 2 ^ 54\<bar>"
proof -
  have g: "uint (m_nGrid blockA) = 10" by (simp add: blockA_simps)
  have a: "snapToGrid blockA (10000000000, 0) = Some (1410065408, 0)"
    using snapToGrid_near [OF g, of 10000000000 1000000000 0 0] by (simp add: wrap32_def)
  have b: "snapToGrid blockA (1410065408, 0) = Some (1410065410, 0)"
    using snapToGrid_near [OF g, of 1410065408 141006541 0 0] by (simp add: wrap32_def)
  have u: "uint (m_nGrid blockU) \<noteq> 0" by (simp add: blockU_simps)
  have d: "rnd (9007199254740991 / 18014398509481984) = 9007199254740991 / 18014398509481984"
    using below_half_double by simp
  have h: "fadd (9007199254740991 / 18014398509481984) (1 / 2) = 1"
    using below_half_plus_half by simp
  have q1: "qRound (fdiv (fst (9007199254740991 / 2 ^ 54 :: real, 0 :: real))
              (of_int (uint (m_nGrid blockU)))) = Some 1"
    by (simp add: blockU_simps fdiv_def qRound_def qint32_of_qreal_def in_qint32_def d h)
  have q2: "qRound (fdiv (snd (9007199254740991 / 2 ^ 54 :: real, 0 :: real))
              (of_int (uint (m_nGrid blockU)))) = Some 0"
    by (simp add: blockU_simps fdiv_def qRound_def fadd_def qint32_of_qreal_def in_qint32_def)
  from snapToGrid_eval [OF u q1 q2]
  have c: "snapToGrid blockU (9007199254740991 / 2 ^ 54, 0) = Some (1, 0)"
    by (simp add: blockU_simps wrap32_def)
  from a b c show ?thesis by simp
qed

subsection \<open>Bounding rectangles\<close>

lemma minmax_fold:
  "lo \<le> hi \<Longrightarrow> minmax lo hi vs = (fold min vs lo, fold max vs hi)"
proof (induction vs arbitrary: lo hi)
  case Nil
  then show ?case by simp
next
  case (Cons v vs)
  then show ?case by (auto simp: min_def max_def)
qed

lemma minmax_Min_Max:
  "minmax v v vs = (Min (set (v # vs)), Max (set (v # vs)))"
  by (simp only: minmax_fold [OF order_refl] Min.set_eq_fold Max.set_eq_fold)

lemma extent_Cons: "extent (v # vs) = Max (set (v # vs)) - Min (set (v # vs))"
  by (simp only: extent_def list.case minmax_Min_Max fst_conv snd_conv)

lemma extent_set:
  "vs \<noteq> [] \<Longrightarrow> extent vs = Max (set vs) - Min (set vs)"
  by (cases vs) (simp_all add: extent_Cons del: Max_insert Min_insert set_simps)

lemma extent_nonneg: "0 \<le> extent vs"
proof (cases "vs = []")
  case True
  then show ?thesis by (simp add: extent_def)
next
  case False
  then have "Min (set vs) \<le> Max (set vs)"
    by (intro Min_le Max_in) simp_all
  moreover from False have "extent vs = Max (set vs) - Min (set vs)" by (rule extent_set)
  ultimately show ?thesis by simp
qed

text \<open>Width and height of a bounding rectangle are the rounded extents.\<close>

lemma boundingRect_points_extent:
  "rect_width (boundingRect_points ps) = rnd (extent (map fst ps))"
  "rect_height (boundingRect_points ps) = rnd (extent (map snd ps))"
  by (cases ps; simp add: boundingRect_points_def extent_def fsub_def split: prod.splits)+

lemma width_nonneg: "0 \<le> rect_width (boundingRect_points ps)"
  and height_nonneg: "0 \<le> rect_height (boundingRect_points ps)"
  by (simp_all only: boundingRect_points_extent extent_nonneg rnd_nonneg)

lemma Max_reflect:
  fixes S :: "real set"
  assumes "finite S" "S \<noteq> {}"
  shows "Max ((\<lambda>v. c - v) ` S) = c - Min S" and "Min ((\<lambda>v. c - v) ` S) = c - Max S"
proof -
  show "Max ((\<lambda>v. c - v) ` S) = c - Min S"
  proof (rule Max_eqI)
    show "finite ((\<lambda>v. c - v) ` S)" using assms by simp
    show "y \<le> c - Min S" if "y \<in> (\<lambda>v. c - v) ` S" for y
      using that assms by (auto simp: Min_le)
    show "c - Min S \<in> (\<lambda>v. c - v) ` S"
      using assms by (intro imageI Min_in)
  qed
  show "Min ((\<lambda>v. c - v) ` S) = c - Max S"
  proof (rule Min_eqI)
    show "finite ((\<lambda>v. c - v) ` S)" using assms by simp
    show "c - Max S \<le> y" if "y \<in> (\<lambda>v. c - v) ` S" for y
      using that assms by (auto simp: Max_ge)
    show "c - Max S \<in> (\<lambda>v. c - v) ` S"
      using assms by (intro imageI Max_in)
  qed
qed

lemma extent_reflect: "extent (map (\<lambda>v. c - v) vs) = extent vs"
proof (cases "vs = []")
  case True
  then show ?thesis by (simp add: extent_def)
next
  case False
  then have ne: "set vs \<noteq> {}" and fin: "finite (set vs)" by simp_all
  from False have "map (\<lambda>v. c - v) vs \<noteq> []" by simp
  then have "extent (map (\<lambda>v. c - v) vs) =
      Max (set (map (\<lambda>v. c - v) vs)) - Min (set (map (\<lambda>v. c - v) vs))"
    by (rule extent_set)
  also have "\<dots> = Max ((\<lambda>v. c - v) ` set vs) - Min ((\<lambda>v. c - v) ` set vs)"
    by (simp only: set_map)
  also have "\<dots> = (c - Min (set vs)) - (c - Max (set vs))"
    by (simp only: Max_reflect [OF fin ne])
  also have "\<dots> = Max (set vs) - Min (set vs)"
    by (simp only: diff_diff_eq2 algebra_simps)
  also have "\<dots> = extent vs"
    using False by (rule extent_set [symmetric])
  finally show ?thesis .
qed

lemma extent_bound:
  assumes "\<forall>v\<in>set vs. \<bar>v\<bar> \<le> B" and "0 \<le> B"
  shows "extent vs \<le> 2 * B"
proof (cases "vs = []")
  case True
  with assms(2) show ?thesis by (simp add: extent_def)
next
  case False
  then have "Max (set vs) \<in> set vs" "Min (set vs) \<in> set vs"
    by (simp_all add: Max_in Min_in)
  with assms(1) have "\<bar>Max (set vs)\<bar> \<le> B" "\<bar>Min (set vs)\<bar> \<le> B" by blast+
  with extent_set [OF False] show ?thesis by linarith
qed

subsection \<open>Barriers\<close>

text \<open>
  C8. A press of any button, a release of any button and any wheel event delivered to a
  barrier leave the whole board as it is; in particular the position, the shape and the
  Z value of the barrier are unchanged.
\<close>

theorem C8_barrier_inert:
  assumes "m_bBarrier (blocks w this)"
  shows "mousePressEvent this press w = w \<and>
         mouseReleaseEvent qt this release w = Some w \<and>
         wheelEvent this wheel w = Some w \<and>
         item_pos (blocks (mousePressEvent this press w) this) = item_pos (blocks w this) \<and>
         m_PolyShape (blocks (mousePressEvent this press w) this) = m_PolyShape (blocks w this) \<and>
         item_zValue (blocks (mousePressEvent this press w) this) = item_zValue (blocks w this)"
  using assms by (simp add: mousePressEvent_def mouseReleaseEvent_def wheelEvent_def)

lemma blockB_simps:
  "m_nID blockB = 2" "m_PolyShape blockB = unitSquare" "m_nGrid blockB = 10"
  "\<not> m_bBarrier blockB" "item_pos blockB = (20, 0)" "item_scale blockB = 10"
  by (simp_all add: blockB_def new_CBlock_fields fmul_def)

lemma wall_simps:
  "m_bBarrier wall" "item_pos wall = (0, 30)" "m_PolyShape wall = unitSquare" "item_zValue wall = 0"
  "m_nID wall = 3" "m_nGrid wall = 10" "item_scale wall = 10"
  by (simp_all add: wall_def new_CBlock_fields fmul_def)

lemma blocks_board: "blocks board 0 = blockA" "blocks board 1 = blockB" "blocks board 2 = wall"
  by (simp_all add: board_def)

theorem C8_barrier_inert_witness:
  "m_bBarrier (blocks board 2) \<and>
   mousePressEvent 2 leftButton board = board \<and>
   mousePressEvent 2 rightButton board = board \<and>
   mouseReleaseEvent rectangleGeometry 2 leftButton board = Some board \<and>
   wheelEvent 2 wheelDown board = Some board \<and>
   wheelEvent 2 wheelUp board = Some board"
proof -
  have h: "m_bBarrier (blocks board 2)" by (simp add: blocks_board wall_simps)
  from h C8_barrier_inert [OF h, of leftButton rectangleGeometry leftButton wheelDown]
    C8_barrier_inert [OF h, of rightButton rectangleGeometry leftButton wheelUp]
  show ?thesis by blast
qed

subsection \<open>Construction\<close>








subsection \<open>Collision check and release\<close>

lemma gridCoords_defined:
  "g \<noteq> 0 \<Longrightarrow> \<exists>d. gridCoords g p = Some d"
  by (simp add: gridCoords_def uint_0_iff)


lemma boundingRect_path_nonneg:
  "0 \<le> rect_width (boundingRect_path p)" "0 \<le> rect_height (boundingRect_path p)"
  by (simp_all add: boundingRect_path_def width_nonneg height_nonneg)

lemma not_isEmpty_size_box:
  "\<not> isEmpty_size (rect_size (boundingRect_path p)) \<longleftrightarrow>
   rect_width (boundingRect_path p) \<noteq> 0 \<and> rect_height (boundingRect_path p) \<noteq> 0"
  using boundingRect_path_nonneg [of p]
  by (auto simp: isEmpty_size_def rect_size_def)

lemma checkPeer_self: "checkPeer qt h this thisPath this = Some ([], False)"
  by (simp add: checkPeer_def getIndex_def)

lemma checkPeer_cases:
  assumes "m_nGrid (h this) \<noteq> 0"
  shows "\<exists>queries hit. checkPeer qt h this thisPath a = Some (queries, hit) \<and>
           set queries \<subseteq> {Call_collidesWithItem a, Call_intersected a} \<and>
           (queries \<noteq> [] \<longrightarrow> a \<noteq> this) \<and>
           (hit \<longleftrightarrow> getIndex (h a) \<noteq> getIndex (h this) \<and> collidesWithItem qt (h this) (h a) \<and>
              (\<exists>r. overlapBox qt h this thisPath a = Some r \<and> rect_width r \<noteq> 0 \<and> rect_height r \<noteq> 0))"
proof -
  from assms obtain d where d: "gridCoords (m_nGrid (h this)) (item_pos (h a)) = Some d"
    using gridCoords_defined by blast
  show ?thesis
    by (auto simp: checkPeer_def d Let_def getIndex_def overlapBox_def not_isEmpty_size_box)
qed

lemma collisionScan_result:
  assumes "m_nGrid (h this) \<noteq> 0"
  shows "\<exists>queries hit. collisionScan qt h this thisPath xs = Some (queries, hit) \<and>
           Call_collidesWithItem this \<notin> set queries \<and> Call_intersected this \<notin> set queries \<and>
           (hit \<longrightarrow> (\<exists>pre a post qs q. xs = pre @ a # post \<and> a \<noteq> this \<and>
                       checkPeer qt h this thisPath a = Some (q, True) \<and>
                       (\<forall>b\<in>set pre. \<exists>qb. checkPeer qt h this thisPath b = Some (qb, False)) \<and>
                       collisionScan qt h this thisPath pre = Some (qs, False) \<and>
                       queries = qs @ q)) \<and>
           (\<not> hit \<longrightarrow> (\<forall>b\<in>set xs. \<exists>qb. checkPeer qt h this thisPath b = Some (qb, False)))"
proof (induction xs)
  case Nil
  show ?case by (intro exI [of _ "[]"] exI [of _ False]) simp
next
  case (Cons x xs)
  from assms checkPeer_cases [of h this qt thisPath x]
  obtain q hit where cp: "checkPeer qt h this thisPath x = Some (q, hit)"
    and sub: "set q \<subseteq> {Call_collidesWithItem x, Call_intersected x}"
    and ne: "q \<noteq> [] \<longrightarrow> x \<noteq> this"
    and hitx: "hit \<longrightarrow> getIndex (h x) \<noteq> getIndex (h this)"
    by blast
  from sub ne have self: "Call_collidesWithItem this \<notin> set q" "Call_intersected this \<notin> set q"
    by auto
  show ?case
  proof (cases hit)
    case True
    with hitx have "x \<noteq> this" by auto
    with True cp self show ?thesis
      by (intro exI [of _ q] exI [of _ True] conjI impI; simp?)
         (intro exI [of _ "[]"] exI [of _ x] exI [of _ xs], simp)
  next
    case False
    from Cons.IH obtain qs r where
        scan: "collisionScan qt h this thisPath xs = Some (qs, r)"
        and s1: "Call_collidesWithItem this \<notin> set qs" "Call_intersected this \<notin> set qs"
        and rhit: "r \<longrightarrow> (\<exists>pre a post qs' q'. xs = pre @ a # post \<and> a \<noteq> this \<and>
                       checkPeer qt h this thisPath a = Some (q', True) \<and>
                       (\<forall>b\<in>set pre. \<exists>qb. checkPeer qt h this thisPath b = Some (qb, False)) \<and>
                       collisionScan qt h this thisPath pre = Some (qs', False) \<and>
                       qs = qs' @ q')"
        and rmiss: "\<not> r \<longrightarrow> (\<forall>b\<in>set xs. \<exists>qb. checkPeer qt h this thisPath b = Some (qb, False))"
      by blast
    have res: "collisionScan qt h this thisPath (x # xs) = Some (q @ qs, r)"
      using cp False scan by simp
    have "r \<longrightarrow> (\<exists>pre a post qs' q'. x # xs = pre @ a # post \<and> a \<noteq> this \<and>
                       checkPeer qt h this thisPath a = Some (q', True) \<and>
                       (\<forall>b\<in>set pre. \<exists>qb. checkPeer qt h this thisPath b = Some (qb, False)) \<and>
                       collisionScan qt h this thisPath pre = Some (qs', False) \<and>
                       q @ qs = qs' @ q')"
    proof
      assume r
      with rhit obtain pre a post qs' q' where
          "xs = pre @ a # post" "a \<noteq> this" "checkPeer qt h this thisPath a = Some (q', True)"
          "\<forall>b\<in>set pre. \<exists>qb. checkPeer qt h this thisPath b = Some (qb, False)"
          "collisionScan qt h this thisPath pre = Some (qs', False)" "qs = qs' @ q'"
        by blast
      then show "\<exists>pre a post qs' q'. x # xs = pre @ a # post \<and> a \<noteq> this \<and>
                       checkPeer qt h this thisPath a = Some (q', True) \<and>
                       (\<forall>b\<in>set pre. \<exists>qb. checkPeer qt h this thisPath b = Some (qb, False)) \<and>
                       collisionScan qt h this thisPath pre = Some (qs', False) \<and>
                       q @ qs = qs' @ q'"
        using cp False
        by (intro exI [of _ "x # pre"] exI [of _ a] exI [of _ post] exI [of _ "q @ qs'"] exI [of _ q'])
           simp
    qed
    moreover have "\<not> r \<longrightarrow> (\<forall>b\<in>set (x # xs). \<exists>qb. checkPeer qt h this thisPath b = Some (qb, False))"
      using rmiss cp False by auto
    ultimately show ?thesis
      using res self s1 by (intro exI [of _ "q @ qs"] exI [of _ r]) simp
  qed
qed



text \<open>
  C3. Whatever the list of pointers holds (the block itself, once or several times, or
  blocks carrying its id), and for a grid size that is not zero: the loop body makes no
  query on the block itself and finds no collision with it; no query on the block itself
  appears among the queries of \<open>checkCollision\<close>. When the result is \<open>true\<close>, the list
  splits into a prefix whose members do not collide, a first colliding peer other than
  the block, and a rest that is never examined: the queries are those of the prefix
  followed by those of that peer. When the result is \<open>false\<close>, no member collides.
\<close>

theorem C3_self_exclusion:
  assumes "m_nGrid (blocks w this) \<noteq> 0"
  shows "checkPeer qt (blocks w) this thisPath this = Some ([], False) \<and>
    (\<exists>queries hit. checkCollision qt this thisPath w = Some (queries, hit) \<and>
       Call_collidesWithItem this \<notin> set queries \<and> Call_intersected this \<notin> set queries \<and>
       (hit \<longrightarrow> (\<exists>pre a post qs q. listBlocks w = pre @ a # post \<and> a \<noteq> this \<and>
                   checkPeer qt (blocks w) this thisPath a = Some (q, True) \<and>
                   (\<forall>b\<in>set pre. \<exists>qb. checkPeer qt (blocks w) this thisPath b = Some (qb, False)) \<and>
                   collisionScan qt (blocks w) this thisPath pre = Some (qs, False) \<and>
                   queries = qs @ q)) \<and>
       (\<not> hit \<longrightarrow>
          (\<forall>b\<in>set (listBlocks w). \<exists>qb. checkPeer qt (blocks w) this thisPath b = Some (qb, False))))"
  unfolding checkCollision_def
  using assms collisionScan_result [of "blocks w" this qt thisPath "listBlocks w"]
  by (simp add: checkPeer_self)

subsection \<open>The rectangle instance of the path algebra\<close>

lemma boundingRect_path_Nil:
  "boundingRect_path [] = \<lparr>rect_x = 0, rect_y = 0, rect_width = 0, rect_height = 0\<rparr>"
  by (simp add: boundingRect_path_def boundingRect_points_def)

lemma corner_path_box:
  "x0 \<le> x1 \<Longrightarrow> y0 \<le> y1 \<Longrightarrow>
   boundingRect_path (corner_path x0 y0 x1 y1) =
     \<lparr>rect_x = x0, rect_y = y0, rect_width = fsub x1 x0, rect_height = fsub y1 y0\<rparr>"
  by (simp add: corner_path_def boundingRect_path_def boundingRect_points_def)

lemma rectangle_intersected:
  "intersected rectangleGeometry p q =
     (if p = [] \<or> q = [] \<or> \<not> rects_meet (boundingRect_path p) (boundingRect_path q) then []
      else common_path (boundingRect_path p) (boundingRect_path q))"
  by (simp add: rectangleGeometry_def)

lemma rectangle_simplified:
  "simplified rectangleGeometry p =
     (if isEmpty_size (rect_size (boundingRect_path p)) then [] else p)"
  by (simp add: rectangleGeometry_def)

lemma simplified_Nil: "simplified rectangleGeometry [] = []"
  by (simp add: rectangle_simplified)

text \<open>
  Two outlines that are apart, or that touch along an edge or at a corner, have an empty
  simplified intersection.
\<close>

lemma no_common_area:
  assumes "\<not> rects_meet (boundingRect_path p) (boundingRect_path q) \<or>
           rects_touch (boundingRect_path p) (boundingRect_path q)"
  shows "simplified rectangleGeometry (intersected rectangleGeometry p q) = []"
proof (cases "p = [] \<or> q = [] \<or> \<not> rects_meet (boundingRect_path p) (boundingRect_path q)")
  case True
  then show ?thesis by (simp add: rectangle_intersected simplified_Nil)
next
  case False
  with assms have t: "rects_touch (boundingRect_path p) (boundingRect_path q)" by blast
  let ?x0 = "max (rect_x (boundingRect_path p)) (rect_x (boundingRect_path q))"
  let ?y0 = "max (rect_y (boundingRect_path p)) (rect_y (boundingRect_path q))"
  let ?x1 = "min (rect_right (boundingRect_path p)) (rect_right (boundingRect_path q))"
  let ?y1 = "min (rect_bottom (boundingRect_path p)) (rect_bottom (boundingRect_path q))"
  from t have le: "?x0 \<le> ?x1" "?y0 \<le> ?y1" and eq: "?x0 = ?x1 \<or> ?y0 = ?y1"
    by (simp_all add: rects_touch_def rects_meet_def)
  have i: "intersected rectangleGeometry p q = corner_path ?x0 ?y0 ?x1 ?y1"
    using False by (simp add: rectangle_intersected common_path_def)
  have "boundingRect_path (corner_path ?x0 ?y0 ?x1 ?y1) =
      \<lparr>rect_x = ?x0, rect_y = ?y0, rect_width = fsub ?x1 ?x0, rect_height = fsub ?y1 ?y0\<rparr>"
    using le by (rule corner_path_box)
  moreover from eq have "fsub ?x1 ?x0 = 0 \<or> fsub ?y1 ?y0 = 0"
    by (auto simp: fsub_def)
  ultimately have "isEmpty_size (rect_size (boundingRect_path (corner_path ?x0 ?y0 ?x1 ?y1)))"
    by (auto simp: isEmpty_size_def rect_size_def)
  then show ?thesis by (simp add: i rectangle_simplified)
qed


lemma update_block_twice:
  "update_block a f (update_block a g w) = update_block a (\<lambda>b. f (g b)) w"
  by (simp add: update_block_def)

lemma update_block_same: "f (blocks w a) = blocks w a \<Longrightarrow> update_block a f w = w"
  by (simp add: update_block_def)

lemma blocks_update_block [simp]:
  "blocks (update_block a f w) a' = (if a' = a then f (blocks w a) else blocks w a')"
  by (simp add: update_block_def)

lemma checkPeer_no_signal:
  "checkPeer qt h this thisPath a = Some (queries, hit) \<Longrightarrow> Emit s \<notin> set queries"
  by (auto simp: checkPeer_def Let_def split: if_splits option.splits)

lemma collisionScan_no_signal:
  "collisionScan qt h this thisPath xs = Some (queries, hit) \<Longrightarrow> Emit s \<notin> set queries"
proof (induction xs arbitrary: queries hit)
  case Nil
  then show ?case by simp
next
  case (Cons x xs)
  then show ?case
    by (auto split: option.splits prod.splits if_splits dest: checkPeer_no_signal)
qed

lemma snapToGrid_grid:
  "snapToGrid this p = Some q \<Longrightarrow> m_nGrid this \<noteq> 0"
  by (auto simp: snapToGrid_def Let_def split: if_splits)

lemma snapToGrid_cong_grid:
  "m_nGrid b = m_nGrid b' \<Longrightarrow> snapToGrid b p = snapToGrid b' p"
  by (simp add: snapToGrid_def)

lemma setNewZValue_keeps:
  "item_pos (setNewZValue z b) = item_pos b" "m_PolyShape (setNewZValue z b) = m_PolyShape b"
  "m_nID (setNewZValue z b) = m_nID b" "m_nGrid (setNewZValue z b) = m_nGrid b"
  "m_bBarrier (setNewZValue z b) = m_bBarrier b" "item_scale (setNewZValue z b) = item_scale b"
  "m_posBlockSelected (setNewZValue z b) = m_posBlockSelected b"
  "m_bMousePressed (setNewZValue z b) = m_bMousePressed b"
  by (simp_all add: setNewZValue_def)

lemma lowerAll_keeps:
  "item_pos (blocks (lowerAll xs w) a) = item_pos (blocks w a)"
  "m_PolyShape (blocks (lowerAll xs w) a) = m_PolyShape (blocks w a)"
  "m_nID (blocks (lowerAll xs w) a) = m_nID (blocks w a)"
  "m_nGrid (blocks (lowerAll xs w) a) = m_nGrid (blocks w a)"
  "m_bBarrier (blocks (lowerAll xs w) a) = m_bBarrier (blocks w a)"
  "item_scale (blocks (lowerAll xs w) a) = item_scale (blocks w a)"
  "m_posBlockSelected (blocks (lowerAll xs w) a) = m_posBlockSelected (blocks w a)"
  "m_bMousePressed (blocks (lowerAll xs w) a) = m_bMousePressed (blocks w a)"
  "listBlocks (lowerAll xs w) = listBlocks w"
  "effects (lowerAll xs w) = effects w"
  by (induction xs arbitrary: w; simp add: setNewZValue_keeps update_block_def)+

text \<open>
  C2. A press of the primary button on a block that is no barrier records its position
  in \<open>m_posBlockSelected\<close>. On a release of the primary button on such a block, when the
  snap of its position has a value: the position is snapped, \<open>incrementMoves\<close> is emitted,
  and then the collision check runs on the snapped outline. Without a collision the
  block stays at the snapped position and \<open>checkPuzzleSolved\<close> is emitted last. With a
  collision the position becomes the snap of \<open>m_posBlockSelected\<close> and nothing more is
  emitted; the queries of the check are no signals.
\<close>

theorem C2_release:
  assumes "button p_Event = LeftButton" and "\<not> m_bBarrier (blocks w this)"
    and "snapToGrid (blocks w this) (item_pos (blocks w this)) = Some snapped"
  shows
    "m_posBlockSelected (blocks (mousePressEvent this p_Event w) this) = item_pos (blocks w this) \<and>
     (\<exists>d queries hit.
        gridCoords (m_nGrid (blocks w this)) snapped = Some d \<and>
        checkCollision qt this (translate_path d (shape (blocks w this)))
          (emit incrementMoves
             (update_block this (\<lambda>b. b\<lparr>m_bMousePressed := False, item_pos := snapped\<rparr>) w)) =
          Some (queries, hit) \<and>
        (\<forall>s. Emit s \<notin> set queries) \<and>
        (\<not> hit \<longrightarrow>
           mouseReleaseEvent qt this p_Event w =
             Some ((update_block this (\<lambda>b. b\<lparr>m_bMousePressed := False, item_pos := snapped\<rparr>) w)
                     \<lparr>effects := effects w @ Emit incrementMoves # queries @ [Emit checkPuzzleSolved]\<rparr>)) \<and>
        (hit \<longrightarrow>
           (\<forall>restored. snapToGrid (blocks w this) (m_posBlockSelected (blocks w this)) = Some restored \<longrightarrow>
              mouseReleaseEvent qt this p_Event w =
                Some ((update_block this (\<lambda>b. b\<lparr>m_bMousePressed := False, item_pos := restored\<rparr>) w)
                        \<lparr>effects := effects w @ Emit incrementMoves # queries\<rparr>))))"
proof
  show "m_posBlockSelected (blocks (mousePressEvent this p_Event w) this) = item_pos (blocks w this)"
    using assms(1,2) by (simp add: mousePressEvent_def Let_def lowerAll_keeps)
next
  let ?w2 = "update_block this (\<lambda>b. b\<lparr>m_bMousePressed := False, item_pos := snapped\<rparr>) w"
  from assms(3) have g: "m_nGrid (blocks w this) \<noteq> 0" by (rule snapToGrid_grid)
  then obtain d where d: "gridCoords (m_nGrid (blocks w this)) snapped = Some d"
    using gridCoords_defined by blast
  have g3: "m_nGrid (blocks (emit incrementMoves ?w2) this) \<noteq> 0"
    using g by (simp add: emit_def)
  from g3 collisionScan_result
      [of "blocks (emit incrementMoves ?w2)" this qt "translate_path d (shape (blocks w this))"
          "listBlocks (emit incrementMoves ?w2)"]
  obtain queries hit where
    chk: "checkCollision qt this (translate_path d (shape (blocks w this))) (emit incrementMoves ?w2) =
            Some (queries, hit)"
    unfolding checkCollision_def by blast
  then have nosig: "\<forall>s. Emit s \<notin> set queries"
    unfolding checkCollision_def by (blast dest: collisionScan_no_signal)
  let ?w1 = "update_block this (\<lambda>b. b\<lparr>m_bMousePressed := False\<rparr>) w"
  have s1: "snapToGrid (blocks ?w1 this) (item_pos (blocks ?w1 this)) = Some snapped"
    using assms(3) by (simp add: snapToGrid_def)
  have w2: "update_block this (setPos snapped) ?w1 = ?w2"
    by (simp add: update_block_def setPos_def)
  have d2: "gridCoords (m_nGrid (blocks ?w2 this)) (item_pos (blocks ?w2 this)) = Some d"
    using d by simp
  have sh: "shape (blocks ?w2 this) = shape (blocks w this)"
    by (simp add: shape_def)
  let ?w4 = "(emit incrementMoves ?w2)\<lparr>effects := effects (emit incrementMoves ?w2) @ queries\<rparr>"
  have rel: "mouseReleaseEvent qt this p_Event w =
      (if hit then
         do {
           restored \<leftarrow> snapToGrid (blocks ?w4 this) (m_posBlockSelected (blocks ?w4 this));
           Some (update_block this (setPos restored) ?w4)
         }
       else Some (emit checkPuzzleSolved ?w4))"
    using assms(1,2) unfolding mouseReleaseEvent_def
    by (simp only: simp_thms if_True Let_def s1 w2 d2 sh chk bind.bind_lunit prod.case)
  have miss: "\<not> hit \<longrightarrow>
           mouseReleaseEvent qt this p_Event w =
             Some (?w2\<lparr>effects := effects w @ Emit incrementMoves # queries @ [Emit checkPuzzleSolved]\<rparr>)"
    unfolding rel by (simp add: emit_def update_block_def)
  have undo: "hit \<longrightarrow>
           (\<forall>restored. snapToGrid (blocks w this) (m_posBlockSelected (blocks w this)) = Some restored \<longrightarrow>
              mouseReleaseEvent qt this p_Event w =
                Some ((update_block this (\<lambda>b. b\<lparr>m_bMousePressed := False, item_pos := restored\<rparr>) w)
                        \<lparr>effects := effects w @ Emit incrementMoves # queries\<rparr>))"
  proof (intro impI allI)
    fix restored
    assume hit and b: "snapToGrid (blocks w this) (m_posBlockSelected (blocks w this)) = Some restored"
    have "snapToGrid (blocks ?w4 this) (m_posBlockSelected (blocks ?w4 this)) = Some restored"
      using b by (simp add: snapToGrid_def emit_def)
    with \<open>hit\<close> show "mouseReleaseEvent qt this p_Event w =
                Some ((update_block this (\<lambda>b. b\<lparr>m_bMousePressed := False, item_pos := restored\<rparr>) w)
                        \<lparr>effects := effects w @ Emit incrementMoves # queries\<rparr>)"
      unfolding rel by (simp add: emit_def update_block_def setPos_def)
  qed
  from d chk nosig miss undo
  show "\<exists>d queries hit.
        gridCoords (m_nGrid (blocks w this)) snapped = Some d \<and>
        checkCollision qt this (translate_path d (shape (blocks w this)))
          (emit incrementMoves ?w2) = Some (queries, hit) \<and>
        (\<forall>s. Emit s \<notin> set queries) \<and>
        (\<not> hit \<longrightarrow>
           mouseReleaseEvent qt this p_Event w =
             Some (?w2\<lparr>effects := effects w @ Emit incrementMoves # queries @ [Emit checkPuzzleSolved]\<rparr>)) \<and>
        (hit \<longrightarrow>
           (\<forall>restored. snapToGrid (blocks w this) (m_posBlockSelected (blocks w this)) = Some restored \<longrightarrow>
              mouseReleaseEvent qt this p_Event w =
                Some ((update_block this (\<lambda>b. b\<lparr>m_bMousePressed := False, item_pos := restored\<rparr>) w)
                        \<lparr>effects := effects w @ Emit incrementMoves # queries\<rparr>)))"
    by blast
qed

subsection \<open>The sample board at work\<close>

lemma update_block_frame [simp]:
  "listBlocks (update_block a f w) = listBlocks w" "effects (update_block a f w) = effects w"
  by (simp_all add: update_block_def)

lemma emit_frame [simp]:
  "blocks (emit s w) = blocks w" "listBlocks (emit s w) = listBlocks w"
  "effects (emit s w) = effects w @ [Emit s]"
  by (simp_all add: emit_def)

lemma unitSquare_box:
  "boundingRect_points unitSquare = \<lparr>rect_x = 0, rect_y = 0, rect_width = 1, rect_height = 1\<rparr>"
  by (simp add: boundingRect_points_def unitSquare_def fsub_def)

lemma unitSquare_nonempty: "unitSquare \<noteq> []"
  by (simp add: unitSquare_def)

lemma shape_unitSquare:
  "m_PolyShape b = unitSquare \<Longrightarrow> translate_path d (shape b) = cellPath d"
  by (simp add: shape_def cellPath_def)

lemma cellPath_corner:
  "cellPath c = corner_path (fadd 0 (fst c)) (fadd 0 (snd c)) (fadd 1 (fst c)) (fadd 1 (snd c))"
  by (simp add: cellPath_def translate_path_def addPolygon_def unitSquare_def corner_path_def)

lemma cellPath_box:
  "boundingRect_path (cellPath c) =
     \<lparr>rect_x = fadd 0 (fst c), rect_y = fadd 0 (snd c),
      rect_width = fsub (fadd 1 (fst c)) (fadd 0 (fst c)),
      rect_height = fsub (fadd 1 (snd c)) (fadd 0 (snd c))\<rparr>"
  unfolding cellPath_corner
  by (rule corner_path_box) (simp_all add: fadd_def rnd_mono)

lemma cellPath_nonempty: "cellPath c \<noteq> []"
  by (simp add: cellPath_corner corner_path_def)

lemma cell_boxes:
  "boundingRect_path (cellPath (1, 0)) = \<lparr>rect_x = 1, rect_y = 0, rect_width = 1, rect_height = 1\<rparr>"
  "boundingRect_path (cellPath (2, 0)) = \<lparr>rect_x = 2, rect_y = 0, rect_width = 1, rect_height = 1\<rparr>"
  "boundingRect_path (cellPath (1, 1)) = \<lparr>rect_x = 1, rect_y = 1, rect_width = 1, rect_height = 1\<rparr>"
  "boundingRect_path (cellPath (0, 3)) = \<lparr>rect_x = 0, rect_y = 3, rect_width = 1, rect_height = 1\<rparr>"
  by (simp_all add: cellPath_box fp_defs)

text \<open>
  The cell (2, 0) with itself shares the whole cell; with the cell (1, 0) it shares an
  edge, with the cell (1, 1) a corner, and with the cell (0, 3) nothing.
\<close>

lemma overlap_same:
  "boundingRect_path (simplified rectangleGeometry
      (intersected rectangleGeometry (cellPath (2, 0)) (cellPath (2, 0)))) =
     \<lparr>rect_x = 2, rect_y = 0, rect_width = 1, rect_height = 1\<rparr>"
proof -
  have i: "intersected rectangleGeometry (cellPath (2, 0)) (cellPath (2, 0)) = corner_path 2 0 3 1"
    by (simp add: rectangle_intersected cellPath_nonempty cell_boxes rects_meet_def
        rect_right_def rect_bottom_def common_path_def fp_defs)
  have b: "boundingRect_path (corner_path 2 0 3 1) =
      \<lparr>rect_x = 2, rect_y = 0, rect_width = 1, rect_height = 1\<rparr>"
    using corner_path_box [of 2 3 0 1] by (simp add: fsub_def)
  show ?thesis
    by (simp add: i rectangle_simplified b isEmpty_size_def rect_size_def)
qed

lemma cells_touch:
  "rects_touch (boundingRect_path (cellPath (1, 0))) (boundingRect_path (cellPath (2, 0)))"
  "rects_touch (boundingRect_path (cellPath (1, 1))) (boundingRect_path (cellPath (2, 0)))"
  "\<not> rects_meet (boundingRect_path (cellPath (1, 0))) (boundingRect_path (cellPath (0, 3)))"
  "\<not> rects_meet (boundingRect_path (cellPath (2, 0))) (boundingRect_path (cellPath (0, 3)))"
  "\<not> rects_meet (boundingRect_path (cellPath (1, 1))) (boundingRect_path (cellPath (0, 3)))"
  by (simp_all add: cell_boxes rects_touch_def rects_meet_def rect_right_def rect_bottom_def fp_defs)

lemma overlap_none:
  "boundingRect_path (simplified rectangleGeometry
      (intersected rectangleGeometry (cellPath (1, 0)) (cellPath (2, 0)))) =
     \<lparr>rect_x = 0, rect_y = 0, rect_width = 0, rect_height = 0\<rparr>"
  "boundingRect_path (simplified rectangleGeometry
      (intersected rectangleGeometry (cellPath (1, 1)) (cellPath (2, 0)))) =
     \<lparr>rect_x = 0, rect_y = 0, rect_width = 0, rect_height = 0\<rparr>"
  "boundingRect_path (simplified rectangleGeometry
      (intersected rectangleGeometry (cellPath (1, 0)) (cellPath (0, 3)))) =
     \<lparr>rect_x = 0, rect_y = 0, rect_width = 0, rect_height = 0\<rparr>"
  "boundingRect_path (simplified rectangleGeometry
      (intersected rectangleGeometry (cellPath (2, 0)) (cellPath (0, 3)))) =
     \<lparr>rect_x = 0, rect_y = 0, rect_width = 0, rect_height = 0\<rparr>"
  "boundingRect_path (simplified rectangleGeometry
      (intersected rectangleGeometry (cellPath (1, 1)) (cellPath (0, 3)))) =
     \<lparr>rect_x = 0, rect_y = 0, rect_width = 0, rect_height = 0\<rparr>"
  using cells_touch by (simp_all add: no_common_area boundingRect_path_Nil)

lemma gridCoords_ten:
  "gridCoords 10 (0, 0) = Some (0, 0)" "gridCoords 10 (10, 0) = Some (1, 0)"
  "gridCoords 10 (20, 0) = Some (2, 0)" "gridCoords 10 (0, 30) = Some (0, 3)"
  "gridCoords 10 (10, 10) = Some (1, 1)"
  by (simp_all add: gridCoords_def fdiv_def)

lemma board_fields:
  "m_PolyShape (blocks board a) = unitSquare"
  "m_nGrid (blocks board a) = 10"
  "item_scale (blocks board a) = 10"
  "m_nID (blocks board a) = (if a = 0 then 1 else if a = 1 then 2 else 3)"
  "item_pos (blocks board a) = (if a = 0 then (0, 0) else if a = 1 then (20, 0) else (0, 30))"
  "listBlocks board = [0, 1, 2]" "effects board = []"
  by (simp_all add: board_def blockA_simps blockB_simps wall_simps)

lemma dragged_fields:
  "m_PolyShape (blocks (dragged p) a) = unitSquare"
  "m_nGrid (blocks (dragged p) a) = 10"
  "item_scale (blocks (dragged p) a) = 10"
  "m_nID (blocks (dragged p) a) = (if a = 0 then 1 else if a = 1 then 2 else 3)"
  "item_pos (blocks (dragged p) a) = (if a = 0 then p else if a = 1 then (20, 0) else (0, 30))"
  "listBlocks (dragged p) = [0, 1, 2]" "effects (dragged p) = []"
  "\<not> m_bBarrier (blocks (dragged p) 0)"
  "m_posBlockSelected (blocks (dragged p) 0) = (0, 0)"
  "m_bMousePressed (blocks (dragged p) 0)"
  by (simp_all add: dragged_def mousePressEvent_def leftButton_def Let_def lowerAll_keeps
      setNewZValue_keeps board_fields setPos_def blocks_board blockA_simps wall_simps)

text \<open>
  The broad test in the rectangle instance between two blocks of one cell with scale 10:
  their squares of side 10 in the scene meet.
\<close>

lemma rectangle_collides:
  assumes "m_PolyShape a = unitSquare" "m_PolyShape b = unitSquare"
    and "item_scale a = 10" "item_scale b = 10"
  shows "collidesWithItem rectangleGeometry a b =
     (max (rnd (fst (item_pos a))) (rnd (fst (item_pos b)))
        \<le> min (fadd (rnd (fst (item_pos a))) 10) (fadd (rnd (fst (item_pos b))) 10) \<and>
      max (rnd (snd (item_pos a))) (rnd (snd (item_pos b)))
        \<le> min (fadd (rnd (snd (item_pos a))) 10) (fadd (rnd (snd (item_pos b))) 10))"
  by (simp add: rectangleGeometry_def sceneRect_def boundingRect_def unitSquare_box assms
      rects_meet_def rect_right_def rect_bottom_def unitSquare_nonempty fmul_def fadd_def)

text \<open>The collision check on a board laid out like the sample one, block 1 at \<open>p\<close>.\<close>

lemma check_layout:
  assumes "\<And>a. m_PolyShape (blocks w a) = unitSquare"
    and "\<And>a. m_nGrid (blocks w a) = 10"
    and "\<And>a. item_scale (blocks w a) = 10"
    and "\<And>a. m_nID (blocks w a) = (if a = 0 then 1 else if a = 1 then 2 else 3)"
    and "\<And>a. item_pos (blocks w a) = (if a = 0 then p else if a = 1 then (20, 0) else (0, 30))"
    and "listBlocks w = [0, 1, 2]"
  shows "p = (20, 0) \<Longrightarrow> checkCollision rectangleGeometry 0 (cellPath (2, 0)) w =
           Some ([Call_collidesWithItem 1, Call_intersected 1], True)"
    and "p = (10, 0) \<Longrightarrow> checkCollision rectangleGeometry 0 (cellPath (1, 0)) w =
           Some ([Call_collidesWithItem 1, Call_intersected 1, Call_collidesWithItem 2], False)"
    and "p = (10, 10) \<Longrightarrow> checkCollision rectangleGeometry 0 (cellPath (1, 1)) w =
           Some ([Call_collidesWithItem 1, Call_intersected 1, Call_collidesWithItem 2], False)"
proof -
  note col = rectangle_collides [OF assms(1) assms(1) assms(3) assms(3)]
  show "p = (20, 0) \<Longrightarrow> checkCollision rectangleGeometry 0 (cellPath (2, 0)) w =
           Some ([Call_collidesWithItem 1, Call_intersected 1], True)"
    by (simp add: checkCollision_def checkPeer_def getIndex_def assms col fadd_def
        gridCoords_ten shape_unitSquare overlap_same isEmpty_size_def rect_size_def)
  show "p = (10, 0) \<Longrightarrow> checkCollision rectangleGeometry 0 (cellPath (1, 0)) w =
           Some ([Call_collidesWithItem 1, Call_intersected 1, Call_collidesWithItem 2], False)"
    by (simp add: checkCollision_def checkPeer_def getIndex_def assms col fadd_def
        gridCoords_ten shape_unitSquare overlap_none isEmpty_size_def rect_size_def)
  show "p = (10, 10) \<Longrightarrow> checkCollision rectangleGeometry 0 (cellPath (1, 1)) w =
           Some ([Call_collidesWithItem 1, Call_intersected 1, Call_collidesWithItem 2], False)"
    by (simp add: checkCollision_def checkPeer_def getIndex_def assms col fadd_def
        gridCoords_ten shape_unitSquare overlap_none isEmpty_size_def rect_size_def)
qed

lemmas check_dragged = check_layout [of "dragged p" p for p, OF dragged_fields(1-6)]

lemma nonzero_grid_dragged: "m_nGrid (blocks (dragged p) 0) \<noteq> 0"
  by (simp add: dragged_fields)






theorem C3_self_exclusion_witness:
  "m_nGrid (blocks (dragged (20, 0)) 0) \<noteq> 0 \<and>
   listBlocks (dragged (20, 0)) = [0] @ 1 # [2] \<and>
   checkPeer rectangleGeometry (blocks (dragged (20, 0))) 0 (cellPath (2, 0)) 0 = Some ([], False) \<and>
   checkCollision rectangleGeometry 0 (cellPath (2, 0)) (dragged (20, 0)) =
     Some ([Call_collidesWithItem 1, Call_intersected 1], True) \<and>
   checkCollision rectangleGeometry 0 (cellPath (1, 0)) (dragged (10, 0)) =
     Some ([Call_collidesWithItem 1, Call_intersected 1, Call_collidesWithItem 2], False)"
proof -
  have g: "m_nGrid (blocks (dragged (20, 0)) 0) \<noteq> 0" by (rule nonzero_grid_dragged)
  have l: "listBlocks (dragged (20, 0)) = [0] @ 1 # [2]" by (simp add: dragged_fields)
  have hit: "checkCollision rectangleGeometry 0 (cellPath (2, 0)) (dragged (20, 0)) =
     Some ([Call_collidesWithItem 1, Call_intersected 1], True)"
    by (rule check_dragged(1)) simp
  have miss: "checkCollision rectangleGeometry 0 (cellPath (1, 0)) (dragged (10, 0)) =
     Some ([Call_collidesWithItem 1, Call_intersected 1, Call_collidesWithItem 2], False)"
    by (rule check_dragged(2)) simp
  from C3_self_exclusion [OF g, of rectangleGeometry "cellPath (2, 0)"]
  have "checkPeer rectangleGeometry (blocks (dragged (20, 0))) 0 (cellPath (2, 0)) 0 = Some ([], False)"
    by blast
  with g l hit miss show ?thesis by blast
qed

theorem C2_release_witness:
  "button leftButton = LeftButton \<and> \<not> m_bBarrier (blocks (dragged (13, 2)) 0) \<and>
   \<not> m_bBarrier (blocks (dragged (18, 3)) 0) \<and>
   snapToGrid (blocks (dragged (13, 2)) 0) (item_pos (blocks (dragged (13, 2)) 0)) = Some (10, 0) \<and>
   map_option (\<lambda>w. (item_pos (blocks w 0), effects w))
       (mouseReleaseEvent rectangleGeometry 0 leftButton (dragged (13, 2))) =
     Some ((10, 0), [Emit incrementMoves, Call_collidesWithItem 1, Call_intersected 1,
                     Call_collidesWithItem 2, Emit checkPuzzleSolved]) \<and>
   snapToGrid (blocks (dragged (18, 3)) 0) (item_pos (blocks (dragged (18, 3)) 0)) = Some (20, 0) \<and>
   snapToGrid (blocks (dragged (18, 3)) 0) (m_posBlockSelected (blocks (dragged (18, 3)) 0)) =
     Some (0, 0) \<and>
   map_option (\<lambda>w. (item_pos (blocks w 0), effects w))
       (mouseReleaseEvent rectangleGeometry 0 leftButton (dragged (18, 3))) =
     Some ((0, 0), [Emit incrementMoves, Call_collidesWithItem 1, Call_intersected 1])"
proof -
  have lb: "button leftButton = LeftButton" by (simp add: leftButton_def)
  have nb: "\<not> m_bBarrier (blocks (dragged p) 0)" for p by (rule dragged_fields)
  have s1: "snapToGrid (blocks (dragged (13, 2)) 0) (item_pos (blocks (dragged (13, 2)) 0)) = Some (10, 0)"
    by (simp add: dragged_fields snap_samples)
  have s2: "snapToGrid (blocks (dragged (18, 3)) 0) (item_pos (blocks (dragged (18, 3)) 0)) = Some (20, 0)"
    by (simp add: dragged_fields snap_samples)
  have s3: "snapToGrid (blocks (dragged (18, 3)) 0) (m_posBlockSelected (blocks (dragged (18, 3)) 0)) =
     Some (0, 0)"
    by (simp add: dragged_fields snap_samples)
  let ?rel = "\<lambda>p q. emit incrementMoves
      (update_block 0 (\<lambda>b. b\<lparr>m_bMousePressed := False, item_pos := q\<rparr>) (dragged p))"
  have c1: "checkCollision rectangleGeometry 0 (cellPath (1, 0)) (?rel (13, 2) (10, 0)) =
      Some ([Call_collidesWithItem 1, Call_intersected 1, Call_collidesWithItem 2], False)"
    by (rule check_layout(2) [where p = "(10, 0)"]) (simp_all add: dragged_fields)
  have c2: "checkCollision rectangleGeometry 0 (cellPath (2, 0)) (?rel (18, 3) (20, 0)) =
      Some ([Call_collidesWithItem 1, Call_intersected 1], True)"
    by (rule check_layout(1) [where p = "(20, 0)"]) (simp_all add: dragged_fields)
  from C2_release [OF lb nb s1, of rectangleGeometry]
  obtain d queries hit where
      "gridCoords (m_nGrid (blocks (dragged (13, 2)) 0)) (10, 0) = Some d"
      and "checkCollision rectangleGeometry 0 (translate_path d (shape (blocks (dragged (13, 2)) 0)))
             (?rel (13, 2) (10, 0)) = Some (queries, hit)"
      and "\<not> hit \<longrightarrow>
           mouseReleaseEvent rectangleGeometry 0 leftButton (dragged (13, 2)) =
             Some ((update_block 0 (\<lambda>b. b\<lparr>m_bMousePressed := False, item_pos := (10, 0)\<rparr>)
                      (dragged (13, 2)))
                     \<lparr>effects := effects (dragged (13, 2)) @ Emit incrementMoves # queries @
                        [Emit checkPuzzleSolved]\<rparr>)"
    by blast
  then have r1: "map_option (\<lambda>w. (item_pos (blocks w 0), effects w))
       (mouseReleaseEvent rectangleGeometry 0 leftButton (dragged (13, 2))) =
     Some ((10, 0), [Emit incrementMoves, Call_collidesWithItem 1, Call_intersected 1,
                     Call_collidesWithItem 2, Emit checkPuzzleSolved])"
    using c1 by (auto simp: dragged_fields gridCoords_ten shape_unitSquare)
  from C2_release [OF lb nb s2, of rectangleGeometry]
  obtain d queries hit where
      "gridCoords (m_nGrid (blocks (dragged (18, 3)) 0)) (20, 0) = Some d"
      and "checkCollision rectangleGeometry 0 (translate_path d (shape (blocks (dragged (18, 3)) 0)))
             (?rel (18, 3) (20, 0)) = Some (queries, hit)"
      and "hit \<longrightarrow>
           (\<forall>restored. snapToGrid (blocks (dragged (18, 3)) 0)
                 (m_posBlockSelected (blocks (dragged (18, 3)) 0)) = Some restored \<longrightarrow>
              mouseReleaseEvent rectangleGeometry 0 leftButton (dragged (18, 3)) =
                Some ((update_block 0 (\<lambda>b. b\<lparr>m_bMousePressed := False, item_pos := restored\<rparr>)
                         (dragged (18, 3)))
                        \<lparr>effects := effects (dragged (18, 3)) @ Emit incrementMoves # queries\<rparr>))"
    by blast
  then have r2: "map_option (\<lambda>w. (item_pos (blocks w 0), effects w))
       (mouseReleaseEvent rectangleGeometry 0 leftButton (dragged (18, 3))) =
     Some ((0, 0), [Emit incrementMoves, Call_collidesWithItem 1, Call_intersected 1])"
    using c2 s3 by (auto simp: dragged_fields gridCoords_ten shape_unitSquare)
  from lb nb [of "(13, 2)"] nb [of "(18, 3)"] s1 r1 s2 s3 r2 show ?thesis by blast
qed

end
